theory Spec2Isabelle
  imports Main
begin

section \<open>JavaScript strings and numbers\<close>

text \<open>
  Strings are lists of characters; the program only builds and inspects ASCII text
  (version numbers, ref names, URLs). A JavaScript value that may be \<open>undefined\<close> or
  \<open>null\<close> is an \<open>option\<close>; a thrown exception or a rejected promise is the left
  summand of a sum type.
\<close>

datatype error = Error string | TypeError string

definition isDigit :: "char \<Rightarrow> bool" where
  "isDigit c = (let n = (of_char c :: nat) in 48 \<le> n \<and> n \<le> 57)"

definition isLetter :: "char \<Rightarrow> bool" where
  "isLetter c = (let n = (of_char c :: nat) in (65 \<le> n \<and> n \<le> 90) \<or> (97 \<le> n \<and> n \<le> 122))"

text \<open>The character class \<^verbatim>\<open>[a-zA-Z0-9-]\<close>.\<close>

definition isLetterDashNumber :: "char \<Rightarrow> bool" where
  "isLetterDashNumber c = (isLetter c \<or> isDigit c \<or> c = CHR ''-'')"

text \<open>What \<^verbatim>\<open>String.prototype.trim\<close> strips, as far as 8-bit characters go.\<close>

definition isWhiteSpace :: "char \<Rightarrow> bool" where
  "isWhiteSpace c = (of_char c \<in> {9, 10, 11, 12, 13, 32, 160 :: nat})"

definition trim :: "string \<Rightarrow> string" where
  "trim s = rev (dropWhile isWhiteSpace (rev (dropWhile isWhiteSpace s)))"

definition startsWith :: "string \<Rightarrow> string \<Rightarrow> bool" where
  "startsWith s p = (take (length p) s = p)"

definition digitChar :: "nat \<Rightarrow> char" where
  "digitChar d = ''0123456789'' ! d"

text \<open>A non-negative integer in a template literal: its decimal digits.\<close>

function dec :: "nat \<Rightarrow> string" where
  "dec n = (if n < 10 then [digitChar n] else dec (n div 10) @ [digitChar (n mod 10)])"
  by pat_completeness auto
termination
  by (relation "measure id") auto

declare dec.simps [simp del]

definition digitValue :: "char \<Rightarrow> nat" where
  "digitValue c = of_char c - 48"

text \<open>Unary plus on a string of decimal digits, as an exact integer.\<close>

definition toNumber :: "string \<Rightarrow> nat" where
  "toNumber s = foldl (\<lambda>a c. 10 * a + digitValue c) 0 s"

function bitLength :: "nat \<Rightarrow> nat" where
  "bitLength n = (if n = 0 then 0 else Suc (bitLength (n div 2)))"
  by pat_completeness auto
termination
  by (relation "measure id") auto

declare bitLength.simps [simp del]

text \<open>
  The double-precision number nearest to an integer (ties to even): what unary plus
  yields for a digit string too large to be held exactly. Integers below \<open>2^53\<close> are
  exact.
\<close>

definition jsNumber :: "nat \<Rightarrow> nat" where
  "jsNumber n =
     (if n < 2 ^ 53 then n
      else let e = bitLength n - 53; q = n div 2 ^ e; r = n mod 2 ^ e; half = 2 ^ (e - 1)
           in (if r < half then q else if half < r then q + 1
               else if even q then q else q + 1) * 2 ^ e)"

text \<open>\<^verbatim>\<open>a < b\<close> on two strings: lexicographic on the character codes.\<close>

fun strLess :: "string \<Rightarrow> string \<Rightarrow> bool" where
  "strLess [] [] = False"
| "strLess [] (b # bs) = True"
| "strLess (a # as) [] = False"
| "strLess (a # as) (b # bs) =
     ((of_char a :: nat) < of_char b \<or> (a = b \<and> strLess as bs))"

text \<open>\<^verbatim>\<open>s.split(c)\<close> and \<^verbatim>\<open>xs.join(sep)\<close>.\<close>

fun split :: "char \<Rightarrow> string \<Rightarrow> string list" where
  "split c [] = [[]]"
| "split c (x # xs) =
     (if x = c then [] # split c xs
      else (case split c xs of [] \<Rightarrow> [[x]] | y # ys \<Rightarrow> (x # y) # ys))"

fun join :: "string \<Rightarrow> string list \<Rightarrow> string" where
  "join sep [] = []"
| "join sep [x] = x"
| "join sep (x # y # ys) = x @ sep @ join sep (y # ys)"


section \<open>The semver package\<close>

text \<open>
  Modelled from the spec: the spec hands version arithmetic to "semantic-versioning
  rules" (section 4.1) of an external library, the npm package \<^verbatim>\<open>semver\<close> that
  \<^verbatim>\<open>src/index.js\<close> requires; the package itself is not part of the sources. The
  definitions of this section render version 5 of the package, the line current when
  the program was written: its \<^verbatim>\<open>SemVer\<close> class (strict mode)
  and the functions \<^verbatim>\<open>inc\<close>, \<^verbatim>\<open>major\<close>, \<^verbatim>\<open>minor\<close>, \<^verbatim>\<open>prerelease\<close>, \<^verbatim>\<open>gt\<close> that
  are called or that state the ordering: \<^verbatim>\<open>major.minor.patch[-prerelease][+build]\<close>,
  numeric fields without leading zeros, at most 256 characters, numbers up to
  \<open>2^53 - 1\<close>.
\<close>

definition MAX_LENGTH :: nat where
  "MAX_LENGTH = 256"

definition MAX_SAFE_INTEGER :: nat where
  "MAX_SAFE_INTEGER = 9007199254740991"

text \<open>A prerelease identifier is held as a number or as a string.\<close>

datatype ident = Num nat | Str string

record SemVer =
  major :: nat
  minor :: nat
  patch :: nat
  prerelease :: "ident list"
  build :: "string list"

text \<open>\<^verbatim>\<open>0|[1-9]\d*\<close>\<close>

definition numericIdentifier :: "string \<Rightarrow> bool" where
  "numericIdentifier s =
     (case s of [] \<Rightarrow> False
      | c # cs \<Rightarrow> list_all isDigit s \<and> (c = CHR ''0'' \<longrightarrow> cs = []))"

text \<open>\<^verbatim>\<open>\d*[a-zA-Z-][a-zA-Z0-9-]*\<close>\<close>

definition nonNumericIdentifier :: "string \<Rightarrow> bool" where
  "nonNumericIdentifier s = (list_all isLetterDashNumber s \<and> \<not> list_all isDigit s)"

definition prereleaseIdentifier :: "string \<Rightarrow> bool" where
  "prereleaseIdentifier s = (numericIdentifier s \<or> nonNumericIdentifier s)"

text \<open>\<^verbatim>\<open>[a-zA-Z0-9-]+\<close>\<close>

definition buildIdentifier :: "string \<Rightarrow> bool" where
  "buildIdentifier s = (s \<noteq> [] \<and> list_all isLetterDashNumber s)"

text \<open>
  The anchored regular expression \<^verbatim>\<open>FULL\<close>,
  \<^verbatim>\<open>^v?(N)\.(N)\.(N)(?:-(P(?:\.P)*))?(?:\+(B(?:\.B)*))?$\<close>, as a left-to-right
  matcher returning the capture groups 1 to 5. A numeric field is followed by a
  non-digit or the end, so it is the longest run of digits; the prerelease group holds
  no \<^verbatim>\<open>+\<close>, so it runs up to the first \<^verbatim>\<open>+\<close> or the end.
\<close>

definition matchNumeric :: "string \<Rightarrow> (string \<times> string) option" where
  "matchNumeric s =
     (let a = takeWhile isDigit s
      in if numericIdentifier a then Some (a, dropWhile isDigit s) else None)"

definition matchBuild :: "string \<Rightarrow> string option option" where
  "matchBuild s =
     (case s of [] \<Rightarrow> Some None
      | c # b \<Rightarrow>
          if c = CHR ''+'' \<and> list_all buildIdentifier (split CHR ''.'' b)
          then Some (Some b) else None)"

definition matchTail :: "string \<Rightarrow> (string option \<times> string option) option" where
  "matchTail s =
     (case s of [] \<Rightarrow> Some (None, None)
      | c # t \<Rightarrow>
          if c = CHR ''-'' then
            (let p = takeWhile (\<lambda>x. x \<noteq> CHR ''+'') t; r = dropWhile (\<lambda>x. x \<noteq> CHR ''+'') t
             in if list_all prereleaseIdentifier (split CHR ''.'' p) then
                  (case matchBuild r of None \<Rightarrow> None | Some b \<Rightarrow> Some (Some p, b))
                else None)
          else (case matchBuild s of None \<Rightarrow> None | Some b \<Rightarrow> Some (None, b)))"

definition matchFull ::
  "string \<Rightarrow> (string \<times> string \<times> string \<times> string option \<times> string option) option" where
  "matchFull s =
     (let s0 = (case s of [] \<Rightarrow> s | c # t \<Rightarrow> if c = CHR ''v'' then t else s)
      in case matchNumeric s0 of None \<Rightarrow> None
         | Some (m1, r1) \<Rightarrow>
      (case r1 of [] \<Rightarrow> None
       | d1 # s1 \<Rightarrow> if d1 \<noteq> CHR ''.'' then None else
      (case matchNumeric s1 of None \<Rightarrow> None
       | Some (m2, r2) \<Rightarrow>
      (case r2 of [] \<Rightarrow> None
       | d2 # s2 \<Rightarrow> if d2 \<noteq> CHR ''.'' then None else
      (case matchNumeric s2 of None \<Rightarrow> None
       | Some (m3, r3) \<Rightarrow>
      (case matchTail r3 of None \<Rightarrow> None
       | Some (m4, m5) \<Rightarrow> Some (m1, m2, m3, m4, m5)))))))"

text \<open>"numberify any prerelease numeric ids"\<close>

definition numberify :: "string \<Rightarrow> ident" where
  "numberify ident =
     (if ident \<noteq> [] \<and> list_all isDigit ident \<and> toNumber ident < MAX_SAFE_INTEGER
      then Num (toNumber ident) else Str ident)"

text \<open>
  Modelled from the spec: \<^verbatim>\<open>new SemVer(version)\<close> of the semver package; every
  \<^verbatim>\<open>throw\<close> of the constructor is an \<open>Inl\<close>.
\<close>

definition SemVer_new :: "string \<Rightarrow> error + SemVer" where
  "SemVer_new version =
     (if MAX_LENGTH < length version then
        Inl (TypeError ''version is longer than 256 characters'')
      else case matchFull (trim version) of
        None \<Rightarrow> Inl (TypeError (''Invalid Version: '' @ version))
      | Some (m1, m2, m3, m4, m5) \<Rightarrow>
          if MAX_SAFE_INTEGER < toNumber m1 then Inl (TypeError ''Invalid major version'')
          else if MAX_SAFE_INTEGER < toNumber m2 then Inl (TypeError ''Invalid minor version'')
          else if MAX_SAFE_INTEGER < toNumber m3 then Inl (TypeError ''Invalid patch version'')
          else Inr \<lparr> major = toNumber m1, minor = toNumber m2, patch = toNumber m3,
                     prerelease = (case m4 of None \<Rightarrow> []
                                   | Some p \<Rightarrow> map numberify (split CHR ''.'' p)),
                     build = (case m5 of None \<Rightarrow> [] | Some b \<Rightarrow> split CHR ''.'' b) \<rparr>)"

definition identifierString :: "ident \<Rightarrow> string" where
  "identifierString i = (case i of Num n \<Rightarrow> dec n | Str s \<Rightarrow> s)"

text \<open>\<^verbatim>\<open>SemVer.prototype.format\<close>: the \<^verbatim>\<open>version\<close> property.\<close>

definition format :: "SemVer \<Rightarrow> string" where
  "format v =
     dec (major v) @ ''.'' @ dec (minor v) @ ''.'' @ dec (patch v) @
     (if prerelease v = [] then []
      else ''-'' @ join ''.'' (map identifierString (prerelease v)))"

text \<open>
  The loop of the \<^verbatim>\<open>'pre'\<close> case: walking from the right, add one to the first
  identifier that is a number; \<open>None\<close> when there is none.
\<close>

fun bumpLast :: "ident list \<Rightarrow> ident list option" where
  "bumpLast [] = None"
| "bumpLast (x # xs) =
     (case bumpLast xs of
        Some ys \<Rightarrow> Some (x # ys)
      | None \<Rightarrow> (case x of Num n \<Rightarrow> Some (Num (n + 1) # xs) | Str s \<Rightarrow> None))"

text \<open>
  The strings over \<^verbatim>\<open>[a-zA-Z0-9-]\<close> that convert to a number other than \<^verbatim>\<open>NaN\<close>:
  an optionally negated decimal with an optional exponent, \<^verbatim>\<open>Infinity\<close>, and the
  binary, octal and hexadecimal literals.
\<close>

definition isDigits :: "string \<Rightarrow> bool" where
  "isDigits s = (s \<noteq> [] \<and> list_all isDigit s)"

definition isExponent :: "string \<Rightarrow> bool" where
  "isExponent s =
     (case s of [] \<Rightarrow> False
      | c # t \<Rightarrow> (c = CHR ''e'' \<or> c = CHR ''E'') \<and>
          (isDigits t \<or> (case t of [] \<Rightarrow> False | m # u \<Rightarrow> m = CHR ''-'' \<and> isDigits u)))"

definition isUnsignedDecimal :: "string \<Rightarrow> bool" where
  "isUnsignedDecimal s =
     (s = ''Infinity'' \<or>
      (let d = takeWhile isDigit s; r = dropWhile isDigit s
       in d \<noteq> [] \<and> (r = [] \<or> isExponent r)))"

definition isRadixLiteral :: "string \<Rightarrow> bool" where
  "isRadixLiteral s =
     (case s of
        z # c # ds \<Rightarrow>
          z = CHR ''0'' \<and> ds \<noteq> [] \<and>
          ((c \<in> {CHR ''b'', CHR ''B''} \<and> list_all (\<lambda>x. x \<in> {CHR ''0'', CHR ''1''}) ds) \<or>
           (c \<in> {CHR ''o'', CHR ''O''} \<and>
              list_all (\<lambda>x. isDigit x \<and> x \<noteq> CHR ''8'' \<and> x \<noteq> CHR ''9'') ds) \<or>
           (c \<in> {CHR ''x'', CHR ''X''} \<and>
              list_all (\<lambda>x. isDigit x \<or> (let n = (of_char x :: nat)
                 in (65 \<le> n \<and> n \<le> 70) \<or> (97 \<le> n \<and> n \<le> 102))) ds))
      | _ \<Rightarrow> False)"

text \<open>\<^verbatim>\<open>isNaN(this.prerelease[1])\<close>; \<open>None\<close> is \<^verbatim>\<open>undefined\<close>.\<close>

definition isNaN :: "ident option \<Rightarrow> bool" where
  "isNaN x =
     (case x of None \<Rightarrow> True
      | Some (Num n) \<Rightarrow> False
      | Some (Str s) \<Rightarrow>
          \<not> (isUnsignedDecimal s \<or> isRadixLiteral s \<or>
             (case s of [] \<Rightarrow> False | c # t \<Rightarrow> c = CHR ''-'' \<and> isUnsignedDecimal t)))"

text \<open>
  \<^verbatim>\<open>SemVer.prototype.inc\<close>, case \<^verbatim>\<open>'pre'\<close>. The identifier is \<open>None\<close> when it is
  \<^verbatim>\<open>undefined\<close>; the empty string is falsy as well.
\<close>

definition incPre :: "SemVer \<Rightarrow> string option \<Rightarrow> SemVer" where
  "incPre v identifier =
     (let p = (if prerelease v = [] then [Num 0]
               else (case bumpLast (prerelease v) of
                       Some ys \<Rightarrow> ys
                     | None \<Rightarrow> prerelease v @ [Num 0]))
      in case identifier of
           None \<Rightarrow> v\<lparr>prerelease := p\<rparr>
         | Some ident \<Rightarrow>
             if ident = [] then v\<lparr>prerelease := p\<rparr>
             else if (case p of [] \<Rightarrow> False | p0 # _ \<Rightarrow> p0 = Str ident) then
               (if isNaN (case p of _ # p1 # _ \<Rightarrow> Some p1 | _ \<Rightarrow> None)
                then v\<lparr>prerelease := [Str ident, Num 0]\<rparr>
                else v\<lparr>prerelease := p\<rparr>)
             else v\<lparr>prerelease := [Str ident, Num 0]\<rparr>)"

text \<open>Case \<^verbatim>\<open>'patch'\<close>.\<close>

definition incPatch :: "SemVer \<Rightarrow> SemVer" where
  "incPatch v =
     (if prerelease v = [] then v\<lparr>patch := patch v + 1\<rparr> else v\<lparr>prerelease := []\<rparr>)"

text \<open>
  Modelled from the spec: \<^verbatim>\<open>SemVer.prototype.inc(release, identifier)\<close> of the semver
  package, the "semantic-versioning rules for the given level".
\<close>

definition SemVer_inc :: "SemVer \<Rightarrow> string \<Rightarrow> string option \<Rightarrow> error + SemVer" where
  "SemVer_inc v release identifier =
     (if release = ''premajor'' then
        Inr (incPre (v\<lparr>prerelease := [], patch := 0, minor := 0, major := major v + 1\<rparr>)
               identifier)
      else if release = ''preminor'' then
        Inr (incPre (v\<lparr>prerelease := [], patch := 0, minor := minor v + 1\<rparr>) identifier)
      else if release = ''prepatch'' then
        Inr (incPre (incPatch (v\<lparr>prerelease := []\<rparr>)) identifier)
      else if release = ''prerelease'' then
        Inr (incPre (if prerelease v = [] then incPatch v else v) identifier)
      else if release = ''major'' then
        Inr ((if minor v \<noteq> 0 \<or> patch v \<noteq> 0 \<or> prerelease v = []
              then v\<lparr>major := major v + 1\<rparr> else v)
             \<lparr>minor := 0, patch := 0, prerelease := []\<rparr>)
      else if release = ''minor'' then
        Inr ((if patch v \<noteq> 0 \<or> prerelease v = [] then v\<lparr>minor := minor v + 1\<rparr> else v)
             \<lparr>patch := 0, prerelease := []\<rparr>)
      else if release = ''patch'' then Inr (incPatch v)
      else if release = ''pre'' then Inr (incPre v identifier)
      else Inl (Error (''invalid increment argument: '' @ release)))"

text \<open>
  \<^verbatim>\<open>semver.inc(version, release, loose, identifier)\<close>, called with three arguments:
  a string in the third place is the identifier. Any exception makes the result
  \<^verbatim>\<open>null\<close>.
\<close>

definition semver_inc :: "string \<Rightarrow> string \<Rightarrow> string option \<Rightarrow> string option" where
  "semver_inc version release loose =
     (case SemVer_new version of
        Inl e \<Rightarrow> None
      | Inr v \<Rightarrow> (case SemVer_inc v release loose of
                   Inl e \<Rightarrow> None
                 | Inr v' \<Rightarrow> Some (format v')))"

text \<open>\<^verbatim>\<open>semver.major\<close>, \<^verbatim>\<open>semver.minor\<close>: they throw on an invalid version.\<close>

definition semver_major :: "string \<Rightarrow> error + nat" where
  "semver_major a = (case SemVer_new a of Inl e \<Rightarrow> Inl e | Inr v \<Rightarrow> Inr (major v))"

definition semver_minor :: "string \<Rightarrow> error + nat" where
  "semver_minor a = (case SemVer_new a of Inl e \<Rightarrow> Inl e | Inr v \<Rightarrow> Inr (minor v))"

text \<open>\<^verbatim>\<open>semver.parse\<close> returns \<^verbatim>\<open>null\<close> where the constructor would throw.\<close>

definition semver_parse :: "string \<Rightarrow> SemVer option" where
  "semver_parse version =
     (if MAX_LENGTH < length version then None
      else if matchFull version = None then None
      else (case SemVer_new version of Inl e \<Rightarrow> None | Inr v \<Rightarrow> Some v))"

text \<open>\<^verbatim>\<open>semver.prerelease\<close>: the identifiers, or \<^verbatim>\<open>null\<close> when there are none.\<close>

definition semver_prerelease :: "string \<Rightarrow> ident list option" where
  "semver_prerelease version =
     (case semver_parse version of
        None \<Rightarrow> None
      | Some v \<Rightarrow> if prerelease v = [] then None else Some (prerelease v))"

text \<open>
  Modelled from the spec: the "semantic-version ordering", as the semver package's
  \<^verbatim>\<open>compareIdentifiers\<close>, \<^verbatim>\<open>compareMain\<close>, \<^verbatim>\<open>comparePre\<close> and \<^verbatim>\<open>compare\<close> compute it.
\<close>

definition isNumeric :: "ident \<Rightarrow> bool" where
  "isNumeric i = (case i of Num n \<Rightarrow> True | Str s \<Rightarrow> isDigits s)"

definition numberOf :: "ident \<Rightarrow> nat" where
  "numberOf i = (case i of Num n \<Rightarrow> n | Str s \<Rightarrow> jsNumber (toNumber s))"

definition compareIdentifiers :: "ident \<Rightarrow> ident \<Rightarrow> int" where
  "compareIdentifiers a b =
     (let anum = isNumeric a; bnum = isNumeric b
      in if anum \<and> \<not> bnum then - 1
         else if bnum \<and> \<not> anum then 1
         else if anum \<and> bnum then
           (if numberOf a < numberOf b then - 1
            else if numberOf b < numberOf a then 1 else 0)
         else
           (if strLess (identifierString a) (identifierString b) then - 1
            else if strLess (identifierString b) (identifierString a) then 1 else 0))"

definition compareMain :: "SemVer \<Rightarrow> SemVer \<Rightarrow> int" where
  "compareMain a b =
     (let c1 = compareIdentifiers (Num (major a)) (Num (major b))
      in if c1 \<noteq> 0 then c1 else
         let c2 = compareIdentifiers (Num (minor a)) (Num (minor b))
         in if c2 \<noteq> 0 then c2
            else compareIdentifiers (Num (patch a)) (Num (patch b)))"

fun comparePreLoop :: "ident list \<Rightarrow> ident list \<Rightarrow> int" where
  "comparePreLoop [] [] = 0"
| "comparePreLoop (a # as) [] = 1"
| "comparePreLoop [] (b # bs) = - 1"
| "comparePreLoop (a # as) (b # bs) =
     (if a = b then comparePreLoop as bs else compareIdentifiers a b)"

definition comparePre :: "SemVer \<Rightarrow> SemVer \<Rightarrow> int" where
  "comparePre a b =
     (if prerelease a \<noteq> [] \<and> prerelease b = [] then - 1
      else if prerelease a = [] \<and> prerelease b \<noteq> [] then 1
      else if prerelease a = [] \<and> prerelease b = [] then 0
      else comparePreLoop (prerelease a) (prerelease b))"

definition SemVer_compare :: "SemVer \<Rightarrow> SemVer \<Rightarrow> int" where
  "SemVer_compare a b =
     (let c = compareMain a b in if c \<noteq> 0 then c else comparePre a b)"

text \<open>\<^verbatim>\<open>semver.gt(a, b)\<close>: \<^verbatim>\<open>compare(a, b) > 0\<close>, throwing on an invalid version.\<close>

definition semver_gt :: "string \<Rightarrow> string \<Rightarrow> error + bool" where
  "semver_gt a b =
     (case SemVer_new a of
        Inl e \<Rightarrow> Inl e
      | Inr va \<Rightarrow> (case SemVer_new b of
                    Inl e \<Rightarrow> Inl e
                  | Inr vb \<Rightarrow> Inr (0 < SemVer_compare va vb)))"


section \<open>The version planner\<close>

record versionInfo =
  version :: string
  minorVer :: string
  releaseBranchName :: string

text \<open>
  \<^verbatim>\<open>generateNextVersion(currentVersion, level, preId)\<close>. When \<^verbatim>\<open>semver.inc\<close> returns
  \<^verbatim>\<open>null\<close>, \<^verbatim>\<open>semver.major(null)\<close> throws a \<^verbatim>\<open>TypeError\<close>.
\<close>

definition generateNextVersion ::
  "string \<Rightarrow> string \<Rightarrow> string option \<Rightarrow> error + versionInfo" where
  "generateNextVersion currentVersion level preId =
     (case semver_inc currentVersion level preId of
        None \<Rightarrow> Inl (TypeError ''Invalid Version: null'')
      | Some ver \<Rightarrow>
          (case semver_major ver of Inl e \<Rightarrow> Inl e
           | Inr mj \<Rightarrow>
          (case semver_minor ver of Inl e \<Rightarrow> Inl e
           | Inr mn \<Rightarrow>
             let minorVer = ''v'' @ dec mj @ ''.'' @ dec mn;
                 prerel = semver_prerelease ver;
                 releaseBranchName = ''release-'' @ minorVer;
                 releaseBranchName =
                   (case prerel of
                      None \<Rightarrow> releaseBranchName
                    | Some p \<Rightarrow> releaseBranchName @ ''-'' @
                        (case p of [] \<Rightarrow> ''undefined'' | p0 # _ \<Rightarrow> identifierString p0))
             in Inr \<lparr> version = ver, minorVer = minorVer,
                      releaseBranchName = releaseBranchName \<rparr>)))"


section \<open>The collaborators\<close>

text \<open>
  Everything outside \<^verbatim>\<open>src/index.js\<close> that a workflow talks to: nodegit, the
  credential helper, the temporary-directory library, the manifest, the terminal and the
  shell. A \<open>world\<close> fixes what each of them answers; a rejected promise or a thrown
  exception is an \<open>Inl\<close>. A repository is named by its path (\<^verbatim>\<open>'.'\<close> for the caller's
  repository, the scratch directory for the clone), a remote by its repository and name.
\<close>

record credentials =
  username :: "string option"
  password :: "string option"

text \<open>What the \<^verbatim>\<open>credentials\<close> callback of the transport options hands to libgit2.\<close>

datatype cred = UserpassPlaintextNew "string option" "string option" | SshKeyFromAgent

record gitOpts =
  certificateCheck :: nat
  credentialsCallback :: cred

record commit =
  sha :: string
  message :: string
  author :: string
  committer :: string
  date :: string

record world =
  repositoryOpen :: "string \<Rightarrow> error + unit"
  getRemote :: "string \<Rightarrow> string \<Rightarrow> error + string"
  available :: bool
  fill :: "string \<Rightarrow> error + credentials"
  dirSync :: "error + string"
  clone :: "string \<Rightarrow> string \<Rightarrow> gitOpts \<Rightarrow> error + unit"
  cwd :: string
  require :: "string \<Rightarrow> error + string option"
  revwalk :: "string \<Rightarrow> string \<Rightarrow> error + commit list"
  answer :: "bool option"
  execSync :: "string \<Rightarrow> string option \<Rightarrow> error + unit"
  push :: "string \<Rightarrow> string \<Rightarrow> string list \<Rightarrow> gitOpts \<Rightarrow> error + string list"

text \<open>
  \<^item> \<open>getRemote repo name\<close> is the URL of the remote found.
  \<^item> \<open>available\<close> is the answer of the helper's availability query, and \<open>fill url\<close>
    what the helper has stored for \<open>url\<close>; the event \<open>GchFill url silent\<close> records the
    \<^verbatim>\<open>silent\<close> option of the call. The availability query and the confirmation prompt
    are taken to answer always.
  \<^item> \<open>require path\<close> is the \<^verbatim>\<open>version\<close> property of the manifest at \<open>path\<close>
    (\<open>None\<close> when the manifest has none).
  \<^item> \<open>revwalk repo range\<close> is the history walk over the repository \<open>repo\<close>:
    \<^verbatim>\<open>Revwalk.create(repo)\<close>, \<^verbatim>\<open>pushRange(range)\<close>, \<^verbatim>\<open>getCommitsUntil\<close>.
  \<^item> \<open>answer\<close> is what the user types at the confirmation: \<open>None\<close> when the prompt is
    left without an explicit yes or no.
  \<^item> Modelled from the spec: \<open>push repo remote refspecs opts\<close>, when the call resolves,
    is the list of the refspecs the remote did not accept ("the underlying transport may
    process refs independently", section 4.5). The transport reports them to a
    per-reference callback only; the promise resolves all the same.
\<close>

text \<open>
  What a run leaves behind: the calls made and lines written, in order, and the scratch
  directories that exist.
\<close>

datatype event =
    RepositoryOpen string
  | GetRemote string string
  | GchAvailable
  | GchFill string bool
  | TmpDirSync bool
  | Clone string string gitOpts
  | Require string
  | LoggerInfo "string list"
  | RevwalkRange string string
  | ConsoleLog string
  | Prompt string bool
  | ExecSync string "string option"
  | RefreshIndex string
  | Push string string "string list" gitOpts

record state =
  trace :: "event list"
  scratch :: "string list"

definition start :: state where
  "start = \<lparr> trace = [], scratch = [] \<rparr>"

type_synonym 'a io = "state \<Rightarrow> (error + 'a) \<times> state"

text \<open>\<^verbatim>\<open>const x = await m; f x\<close>: a rejection of \<open>m\<close> leaves the function at once.\<close>

definition await :: "'a io \<Rightarrow> ('a \<Rightarrow> 'b io) \<Rightarrow> 'b io" where
  "await m f = (\<lambda>s. case m s of (Inl e, s') \<Rightarrow> (Inl e, s') | (Inr x, s') \<Rightarrow> f x s')"

definition return :: "'a \<Rightarrow> 'a io" where
  "return x = (\<lambda>s. (Inr x, s))"

definition throw :: "error \<Rightarrow> 'a io" where
  "throw e = (\<lambda>s. (Inl e, s))"

text \<open>A call to a collaborator: it is recorded, and its answer is the world's.\<close>

definition call :: "event \<Rightarrow> error + 'a \<Rightarrow> 'a io" where
  "call ev r = (\<lambda>s. (r, s\<lparr>trace := trace s @ [ev]\<rparr>))"

definition say :: "event \<Rightarrow> unit io" where
  "say ev = call ev (Inr ())"

text \<open>
  \<^verbatim>\<open>tmp.dirSync({ unsafeCleanup: true })\<close> creates a directory and returns its name. The
  option only says how a later removal would proceed (recursively).
\<close>

definition tmp_dirSync :: "world \<Rightarrow> bool \<Rightarrow> string io" where
  "tmp_dirSync w unsafeCleanup =
     (\<lambda>s. case dirSync w of
             Inl e \<Rightarrow> (Inl e, s\<lparr>trace := trace s @ [TmpDirSync unsafeCleanup]\<rparr>)
           | Inr name \<Rightarrow> (Inr name, s\<lparr>trace := trace s @ [TmpDirSync unsafeCleanup],
                                      scratch := scratch s @ [name]\<rparr>))"

text \<open>
  The \<^verbatim>\<open>confirm\<close> question of inquirer: without an explicit answer the result is the
  configured default.
\<close>

definition confirm :: "bool \<Rightarrow> bool option \<Rightarrow> bool" where
  "confirm dflt input = (case input of None \<Rightarrow> dflt | Some b \<Rightarrow> b)"


section \<open>The program\<close>

definition CredentialHelperUnavailable :: error where
  "CredentialHelperUnavailable =
     Error ''Using https remote but git credentials helper not available!''"

text \<open>\<^verbatim>\<open>getCreds(remote)\<close>; \<open>None\<close> is \<^verbatim>\<open>null\<close>.\<close>

definition getCreds :: "world \<Rightarrow> string \<Rightarrow> credentials option io" where
  "getCreds w url =
     await (call GchAvailable (Inr (available w))) (\<lambda>credentialHelperAvailable.
       if startsWith url ''git'' then return None
       else if \<not> credentialHelperAvailable then throw CredentialHelperUnavailable
       else await (call (GchFill url True) (fill w url)) (\<lambda>data. return (Some data)))"

definition makeGitOpts :: "credentials option \<Rightarrow> gitOpts" where
  "makeGitOpts creds =
     \<lparr> certificateCheck = 1,
       credentialsCallback =
         (case creds of
            Some c \<Rightarrow> UserpassPlaintextNew (username c) (password c)
          | None \<Rightarrow> SshKeyFromAgent) \<rparr>"

text \<open>
  \<^verbatim>\<open>getVersion(repoPath)\<close>; a missing or empty argument means the working directory.
  The manifest is loaded with \<^verbatim>\<open>require\<close>.
\<close>

definition manifestPath :: "world \<Rightarrow> string option \<Rightarrow> string" where
  "manifestPath w repoPath =
     (case repoPath of None \<Rightarrow> cwd w | Some p \<Rightarrow> if p = [] then cwd w else p) @
     ''/package.json''"

definition getVersion :: "world \<Rightarrow> string option \<Rightarrow> string option io" where
  "getVersion w repoPath =
     call (Require (manifestPath w repoPath)) (require w (manifestPath w repoPath))"

text \<open>
  The planner on what \<^verbatim>\<open>getVersion\<close> returned: on \<^verbatim>\<open>undefined\<close>, \<^verbatim>\<open>semver.inc\<close>
  returns \<^verbatim>\<open>null\<close> and \<^verbatim>\<open>semver.major\<close> throws. Past this point the current version
  is a string, which is returned along with the plan.
\<close>

definition plan ::
  "string option \<Rightarrow> string \<Rightarrow> string option \<Rightarrow> (string \<times> versionInfo) io" where
  "plan currentVersion level preId =
     (case currentVersion of
        None \<Rightarrow> throw (TypeError ''Invalid Version: null'')
      | Some v \<Rightarrow> (case generateNextVersion v level preId of
                    Inl e \<Rightarrow> throw e
                  | Inr info \<Rightarrow> return (v, info)))"

definition commitLine :: "commit \<Rightarrow> string" where
  "commitLine c = ''['' @ date c @ ''] ('' @ author c @ '') '' @ message c"

fun forEach :: "'a list \<Rightarrow> ('a \<Rightarrow> unit io) \<Rightarrow> unit io" where
  "forEach [] f = return ()"
| "forEach (x # xs) f = await (f x) (\<lambda>_. forEach xs f)"

text \<open>
  \<^verbatim>\<open>approveDiff(repo, currentVersion, nextVersion)\<close>; the result is the \<^verbatim>\<open>lgtm\<close>
  property of the answers.
\<close>

definition approveDiff :: "world \<Rightarrow> string \<Rightarrow> string \<Rightarrow> string option \<Rightarrow> bool io" where
  "approveDiff w repo currentVersion nextVersion =
     (let endRange = (case nextVersion of None \<Rightarrow> ''master''
                      | Some n \<Rightarrow> if n = [] then ''master'' else ''v'' @ n);
          range = ''v'' @ currentVersion @ ''..'' @ endRange
      in await (call (RevwalkRange repo range) (revwalk w repo range)) (\<lambda>commits.
         await (say (ConsoleLog (''--- START COMMIT LOG '' @ range @ '' ---''))) (\<lambda>_.
         await (forEach commits (\<lambda>c. say (ConsoleLog (commitLine c)))) (\<lambda>_.
         await (say (ConsoleLog (''--- END COMMIT LOG '' @ range @ '' ---''))) (\<lambda>_.
         await (say (Prompt ''Does the commit log look good?'' False)) (\<lambda>_.
         return (confirm False (answer w))))))))"

text \<open>
  The shell command \<^verbatim>\<open>npm version <level> -m "Release v%s"\<close>; \<open>CHR 0x22\<close> is the
  double quote.
\<close>

definition npmVersion :: "string \<Rightarrow> string" where
  "npmVersion level =
     ''npm version '' @ level @ '' -m '' @ [CHR 0x22] @ ''Release v%s'' @ [CHR 0x22]"

record args =
  upstream :: string
  level :: string
  preid :: "string option"

definition cutRefs :: "versionInfo \<Rightarrow> string list" where
  "cutRefs info =
     [''refs/heads/master:refs/heads/master'',
      ''refs/heads/master:refs/heads/'' @ releaseBranchName info,
      ''refs/tags/v'' @ version info @ '':refs/tags/v'' @ version info]"

definition tagRefs :: "versionInfo \<Rightarrow> string list" where
  "tagRefs info =
     [''refs/heads/'' @ releaseBranchName info @ '':refs/heads/'' @ releaseBranchName info,
      ''refs/tags/v'' @ version info @ '':refs/tags/v'' @ version info]"

text \<open>\<^verbatim>\<open>cutReleaseBranch(args)\<close>\<close>

definition cutReleaseBranch :: "world \<Rightarrow> args \<Rightarrow> string io" where
  "cutReleaseBranch w a =
     await (call (RepositoryOpen ''.'') (repositoryOpen w ''.'')) (\<lambda>_.
     await (call (GetRemote ''.'' (upstream a)) (getRemote w ''.'' (upstream a))) (\<lambda>url.
     await (getCreds w url) (\<lambda>creds.
     await (tmp_dirSync w True) (\<lambda>tmpdir.
     await (call (Clone url tmpdir (makeGitOpts creds))
                 (clone w url tmpdir (makeGitOpts creds))) (\<lambda>_.
     await (call (GetRemote tmpdir ''origin'') (getRemote w tmpdir ''origin'')) (\<lambda>_.
     await (getVersion w (Some tmpdir)) (\<lambda>manifestVersion.
     await (plan manifestVersion (level a) (preid a)) (\<lambda>(currentVersion, info).
     await (say (LoggerInfo [''Incrementing'', currentVersion, ''to'', version info])) (\<lambda>_.
     await (say (LoggerInfo [''Cutting branch'', releaseBranchName info])) (\<lambda>_.
     await (approveDiff w ''.'' currentVersion None) (\<lambda>lgtm.
     await (call (ExecSync (npmVersion (level a)) (Some tmpdir))
                 (execSync w (npmVersion (level a)) (Some tmpdir))) (\<lambda>_.
     await (say (RefreshIndex ''.'')) (\<lambda>_.
     if \<not> lgtm then return ''Aborted branch cut! Phew, that was a close one...''
     else
     await (say (LoggerInfo [''Pushing branch '' @ releaseBranchName info @ '' & tag v'' @
                             version info])) (\<lambda>_.
     await (call (Push tmpdir ''origin'' (cutRefs info) (makeGitOpts creds))
                 (push w tmpdir ''origin'' (cutRefs info) (makeGitOpts creds))) (\<lambda>_.
     return ''Done!'')))))))))))))))"

text \<open>\<^verbatim>\<open>tagVersion(args)\<close>\<close>

definition tagVersion :: "world \<Rightarrow> args \<Rightarrow> string io" where
  "tagVersion w a =
     await (call (RepositoryOpen ''.'') (repositoryOpen w ''.'')) (\<lambda>_.
     await (call (GetRemote ''.'' (upstream a)) (getRemote w ''.'' (upstream a))) (\<lambda>url.
     await (getCreds w url) (\<lambda>creds.
     await (getVersion w None) (\<lambda>manifestVersion.
     await (plan manifestVersion ''patch'' None) (\<lambda>(currentVersion, info).
     await (call (ExecSync (npmVersion ''patch'') None)
                 (execSync w (npmVersion ''patch'') None)) (\<lambda>_.
     await (say (LoggerInfo [''Tagging version'', version info])) (\<lambda>_.
     await (approveDiff w ''.'' currentVersion (Some (version info))) (\<lambda>lgtm.
     if \<not> lgtm then
       return ''Aborted push! Local changes not reverted, you must now do surgery!''
     else
     await (say (LoggerInfo [''Pushing tagged version'', version info])) (\<lambda>_.
     await (call (Push ''.'' (upstream a) (tagRefs info) (makeGitOpts creds))
                 (push w ''.'' (upstream a) (tagRefs info) (makeGitOpts creds))) (\<lambda>_.
     return ''Done!''))))))))))"


section \<open>Notions used to state the properties\<close>

definition isClone :: "event \<Rightarrow> bool" where
  "isClone e = (case e of Clone u p opts \<Rightarrow> True | _ \<Rightarrow> False)"

definition isPush :: "event \<Rightarrow> bool" where
  "isPush e = (case e of Push r n refs opts \<Rightarrow> True | _ \<Rightarrow> False)"

definition isNetwork :: "event \<Rightarrow> bool" where
  "isNetwork e = (isClone e \<or> isPush e)"

definition isRevwalk :: "event \<Rightarrow> bool" where
  "isRevwalk e = (case e of RevwalkRange r g \<Rightarrow> True | _ \<Rightarrow> False)"

definition isConsoleLog :: "event \<Rightarrow> bool" where
  "isConsoleLog e = (case e of ConsoleLog l \<Rightarrow> True | _ \<Rightarrow> False)"

text \<open>The range string of \<^verbatim>\<open>approveDiff\<close>, and everything a completed review leaves.\<close>

definition rangeOf :: "string \<Rightarrow> string option \<Rightarrow> string" where
  "rangeOf currentVersion nextVersion =
     ''v'' @ currentVersion @ ''..'' @
     (case nextVersion of None \<Rightarrow> ''master''
      | Some n \<Rightarrow> if n = [] then ''master'' else ''v'' @ n)"

definition reviewLines :: "string \<Rightarrow> string \<Rightarrow> commit list \<Rightarrow> event list" where
  "reviewLines repo rng commits =
     [RevwalkRange repo rng, ConsoleLog (''--- START COMMIT LOG '' @ rng @ '' ---'')] @
     map (\<lambda>c. ConsoleLog (commitLine c)) commits @
     [ConsoleLog (''--- END COMMIT LOG '' @ rng @ '' ---''),
      Prompt ''Does the commit log look good?'' False]"

text \<open>
  The release levels of the planner's contract, and two properties of the prerelease
  identifiers that the constructor produces: their text is a non-empty run of
  \<^verbatim>\<open>[a-zA-Z0-9-]\<close>, and reading that text again gives the same identifier.
\<close>

definition releaseLevels :: "string list" where
  "releaseLevels = [''major'', ''minor'', ''patch'', ''premajor'', ''preminor'', ''prerelease'']"

definition wfId :: "ident \<Rightarrow> bool" where
  "wfId i = (identifierString i \<noteq> [] \<and> list_all isLetterDashNumber (identifierString i))"

definition idOk :: "ident \<Rightarrow> bool" where
  "idOk i = (case i of Num n \<Rightarrow> n < MAX_SAFE_INTEGER | Str s \<Rightarrow> numberify s = Str s)"

text \<open>
  A world to run the workflows in: an ssh-like upstream, a manifest at version 2.4.0,
  a user who approves, collaborators that all succeed. The caller's repository holds a
  commit that the fresh clone does not, and the clone one that the caller has not.
\<close>

definition localCommit :: commit where
  "localCommit = \<lparr> sha = ''1f3a'', message = ''work in progress, never pushed'',
                    author = ''Ann'', committer = ''Ann'', date = ''Mon Mar 05 2018'' \<rparr>"

definition upstreamCommit :: commit where
  "upstreamCommit = \<lparr> sha = ''9c2e'', message = ''merged upstream by someone else'',
                       author = ''Bob'', committer = ''Bob'', date = ''Tue Mar 06 2018'' \<rparr>"

definition exampleWorld :: world where
  "exampleWorld =
     \<lparr> repositoryOpen = (\<lambda>path. Inr ()),
       getRemote = (\<lambda>repo name. Inr ''git@host:repo.git''),
       available = True,
       fill = (\<lambda>url. Inr \<lparr> username = Some ''ann'', password = Some ''secret'' \<rparr>),
       dirSync = Inr ''/tmp/tmp-1'',
       clone = (\<lambda>url path opts. Inr ()),
       cwd = ''/work'',
       require = (\<lambda>path. Inr (Some ''2.4.0'')),
       revwalk = (\<lambda>repo rng. Inr (if repo = ''.'' then [localCommit] else [upstreamCommit])),
       answer = Some True,
       execSync = (\<lambda>cmd dir. Inr ()),
       push = (\<lambda>repo remote refspecs opts. Inr []) \<rparr>"

definition cutArgs :: args where
  "cutArgs = \<lparr> upstream = ''origin'', level = ''minor'', preid = None \<rparr>"


section \<open>Running a workflow step by step\<close>

lemma await_call:
  "await (call ev r) f s =
     (case r of Inl e \<Rightarrow> (Inl e, s\<lparr>trace := trace s @ [ev]\<rparr>)
      | Inr x \<Rightarrow> f x (s\<lparr>trace := trace s @ [ev]\<rparr>))"
  by (simp add: await_def call_def split: sum.splits)

lemma await_say: "await (say ev) f s = f () (s\<lparr>trace := trace s @ [ev]\<rparr>)"
  by (simp add: say_def await_call)

lemma await_return: "await (return x) f s = f x s"
  by (simp add: await_def return_def)

lemma await_throw: "await (throw e) f s = (Inl e, s)"
  by (simp add: await_def throw_def)

lemma getCreds_run:
  "getCreds w url s =
     (if startsWith url ''git'' then (Inr None, s\<lparr>trace := trace s @ [GchAvailable]\<rparr>)
      else if \<not> available w then
        (Inl CredentialHelperUnavailable, s\<lparr>trace := trace s @ [GchAvailable]\<rparr>)
      else (case fill w url of
              Inl e \<Rightarrow> (Inl e, s\<lparr>trace := trace s @ [GchAvailable, GchFill url True]\<rparr>)
            | Inr d \<Rightarrow> (Inr (Some d), s\<lparr>trace := trace s @ [GchAvailable, GchFill url True]\<rparr>)))"
  by (simp add: getCreds_def await_call return_def throw_def split: sum.splits)

lemma await_getCreds:
  "await (getCreds w url) f s =
     (if startsWith url ''git'' then f None (s\<lparr>trace := trace s @ [GchAvailable]\<rparr>)
      else if \<not> available w then
        (Inl CredentialHelperUnavailable, s\<lparr>trace := trace s @ [GchAvailable]\<rparr>)
      else (case fill w url of
              Inl e \<Rightarrow> (Inl e, s\<lparr>trace := trace s @ [GchAvailable, GchFill url True]\<rparr>)
            | Inr d \<Rightarrow> f (Some d) (s\<lparr>trace := trace s @ [GchAvailable, GchFill url True]\<rparr>)))"
  by (simp add: await_def getCreds_run split: sum.splits)

lemma forEach_say:
  "forEach xs (\<lambda>c. say (g c)) s = (Inr (), s\<lparr>trace := trace s @ map g xs\<rparr>)"
  by (induction xs arbitrary: s) (simp_all add: return_def await_say)

lemma await_forEach_say:
  "await (forEach xs (\<lambda>c. say (g c))) f s = f () (s\<lparr>trace := trace s @ map g xs\<rparr>)"
  by (simp add: await_def forEach_say)

lemma approveDiff_run:
  "approveDiff w repo cv nv s =
     (case revwalk w repo (rangeOf cv nv) of
        Inl e \<Rightarrow> (Inl e, s\<lparr>trace := trace s @ [RevwalkRange repo (rangeOf cv nv)]\<rparr>)
      | Inr commits \<Rightarrow>
          (Inr (confirm False (answer w)),
           s\<lparr>trace := trace s @ reviewLines repo (rangeOf cv nv) commits\<rparr>))"
  unfolding approveDiff_def Let_def rangeOf_def reviewLines_def
  by (simp add: await_call await_say await_forEach_say return_def split: sum.splits)

lemma await_approveDiff:
  "await (approveDiff w repo cv nv) f s =
     (case revwalk w repo (rangeOf cv nv) of
        Inl e \<Rightarrow> (Inl e, s\<lparr>trace := trace s @ [RevwalkRange repo (rangeOf cv nv)]\<rparr>)
      | Inr commits \<Rightarrow>
          f (confirm False (answer w))
            (s\<lparr>trace := trace s @ reviewLines repo (rangeOf cv nv) commits\<rparr>))"
  by (simp add: await_def approveDiff_run split: sum.splits)

lemma await_plan:
  "await (plan cv lvl p) f s =
     (case cv of None \<Rightarrow> (Inl (TypeError ''Invalid Version: null''), s)
      | Some v \<Rightarrow> (case generateNextVersion v lvl p of
                    Inl e \<Rightarrow> (Inl e, s)
                  | Inr info \<Rightarrow> f (v, info) s))"
  by (simp add: plan_def await_throw await_return split: option.splits sum.splits)

lemma await_getVersion:
  "await (getVersion w rp) f s =
     (case require w (manifestPath w rp) of
        Inl e \<Rightarrow> (Inl e, s\<lparr>trace := trace s @ [Require (manifestPath w rp)]\<rparr>)
      | Inr v \<Rightarrow> f v (s\<lparr>trace := trace s @ [Require (manifestPath w rp)]\<rparr>))"
  by (simp add: getVersion_def await_call)

lemma await_tmp_dirSync:
  "await (tmp_dirSync w u) f s =
     (case dirSync w of
        Inl e \<Rightarrow> (Inl e, s\<lparr>trace := trace s @ [TmpDirSync u]\<rparr>)
      | Inr name \<Rightarrow> f name (s\<lparr>trace := trace s @ [TmpDirSync u],
                               scratch := scratch s @ [name]\<rparr>))"
  by (simp add: await_def tmp_dirSync_def split: sum.splits)

lemmas run_simps = await_call await_say await_return await_throw await_getCreds
  await_approveDiff await_plan await_getVersion await_tmp_dirSync

text \<open>
  The same steps as rules: a property \<open>Q\<close> of the result of a workflow holds when it
  holds at every place where the workflow can stop. One rule for each kind of step; the
  state is kept in the form \<open>\<lparr>trace = t, scratch = d\<rparr>\<close>.
\<close>

lemma wp_call:
  assumes "\<And>e. r = Inl e \<Longrightarrow> Q (Inl e, \<lparr>trace = t @ [ev], scratch = d\<rparr>)"
    and "\<And>x. r = Inr x \<Longrightarrow> Q (f x \<lparr>trace = t @ [ev], scratch = d\<rparr>)"
  shows "Q (await (call ev r) f \<lparr>trace = t, scratch = d\<rparr>)"
  using assms by (cases r) (simp_all add: await_call)

lemma wp_say:
  assumes "Q (f () \<lparr>trace = t @ [ev], scratch = d\<rparr>)"
  shows "Q (await (say ev) f \<lparr>trace = t, scratch = d\<rparr>)"
  using assms by (simp add: await_say)

lemma wp_return:
  assumes "Q (Inr x, s)"
  shows "Q (return x s)"
  using assms by (simp add: return_def)

lemma wp_if:
  assumes "c \<Longrightarrow> Q (m s)" and "\<not> c \<Longrightarrow> Q (n s)"
  shows "Q ((if c then m else n) s)"
  using assms by simp

lemma wp_getCreds:
  assumes "startsWith url ''git'' \<Longrightarrow> Q (f None \<lparr>trace = t @ [GchAvailable], scratch = d\<rparr>)"
    and "\<not> startsWith url ''git'' \<Longrightarrow> \<not> available w \<Longrightarrow>
           Q (Inl CredentialHelperUnavailable, \<lparr>trace = t @ [GchAvailable], scratch = d\<rparr>)"
    and "\<And>e. \<not> startsWith url ''git'' \<Longrightarrow> available w \<Longrightarrow> fill w url = Inl e \<Longrightarrow>
           Q (Inl e, \<lparr>trace = t @ [GchAvailable, GchFill url True], scratch = d\<rparr>)"
    and "\<And>c. \<not> startsWith url ''git'' \<Longrightarrow> available w \<Longrightarrow> fill w url = Inr c \<Longrightarrow>
           Q (f (Some c) \<lparr>trace = t @ [GchAvailable, GchFill url True], scratch = d\<rparr>)"
  shows "Q (await (getCreds w url) f \<lparr>trace = t, scratch = d\<rparr>)"
  using assms by (cases "fill w url") (simp_all add: await_getCreds)

lemma wp_tmp_dirSync:
  assumes "\<And>e. dirSync w = Inl e \<Longrightarrow> Q (Inl e, \<lparr>trace = t @ [TmpDirSync u], scratch = d\<rparr>)"
    and "\<And>name. dirSync w = Inr name \<Longrightarrow>
           Q (f name \<lparr>trace = t @ [TmpDirSync u], scratch = d @ [name]\<rparr>)"
  shows "Q (await (tmp_dirSync w u) f \<lparr>trace = t, scratch = d\<rparr>)"
  using assms by (cases "dirSync w") (simp_all add: await_tmp_dirSync)

lemma wp_getVersion:
  assumes "\<And>e. require w (manifestPath w rp) = Inl e \<Longrightarrow>
             Q (Inl e, \<lparr>trace = t @ [Require (manifestPath w rp)], scratch = d\<rparr>)"
    and "\<And>v. require w (manifestPath w rp) = Inr v \<Longrightarrow>
             Q (f v \<lparr>trace = t @ [Require (manifestPath w rp)], scratch = d\<rparr>)"
  shows "Q (await (getVersion w rp) f \<lparr>trace = t, scratch = d\<rparr>)"
  using assms by (cases "require w (manifestPath w rp)") (simp_all add: await_getVersion)

lemma wp_plan:
  assumes "cv = None \<Longrightarrow> Q (Inl (TypeError ''Invalid Version: null''), s)"
    and "\<And>v e. cv = Some v \<Longrightarrow> generateNextVersion v lvl p = Inl e \<Longrightarrow> Q (Inl e, s)"
    and "\<And>v info. cv = Some v \<Longrightarrow> generateNextVersion v lvl p = Inr info \<Longrightarrow> Q (g v info s)"
  shows "Q (await (plan cv lvl p) (case_prod g) s)"
proof (cases cv)
  case None
  then show ?thesis using assms(1) by (simp add: await_plan)
next
  case (Some v)
  then show ?thesis using assms(2,3) [of v]
    by (cases "generateNextVersion v lvl p") (simp_all add: await_plan)
qed

lemma wp_approveDiff:
  assumes "\<And>e. revwalk w repo (rangeOf cv nv) = Inl e \<Longrightarrow>
             Q (Inl e, \<lparr>trace = t @ [RevwalkRange repo (rangeOf cv nv)], scratch = d\<rparr>)"
    and "\<And>commits. revwalk w repo (rangeOf cv nv) = Inr commits \<Longrightarrow>
             Q (f (confirm False (answer w))
                  \<lparr>trace = t @ reviewLines repo (rangeOf cv nv) commits, scratch = d\<rparr>)"
  shows "Q (await (approveDiff w repo cv nv) f \<lparr>trace = t, scratch = d\<rparr>)"
  using assms
  by (cases "revwalk w repo (rangeOf cv nv)") (simp_all add: await_approveDiff)

lemmas wp = wp_call wp_say wp_return wp_if wp_getCreds wp_tmp_dirSync wp_getVersion wp_plan
  wp_approveDiff


section \<open>Credential resolution\<close>

text \<open>
  Claim C10. The protocol is decided by one test, whether the URL starts with \<^verbatim>\<open>git\<close>.
  A URL that does (\<^verbatim>\<open>git@host:...\<close>, \<^verbatim>\<open>git://...\<close>) yields \<open>None\<close>. Any other URL,
  \<^verbatim>\<open>ssh://...\<close> included, is looked up in the credential helper: the lookup fails when
  the helper is unavailable, and otherwise the helper's \<^verbatim>\<open>fill\<close> is called for the URL
  and its answer is the result.
\<close>

theorem getCreds_classifies_by_prefix:
  "(startsWith url ''git'' \<longrightarrow> fst (getCreds w url s) = Inr None) \<and>
   (\<not> startsWith url ''git'' \<longrightarrow>
      (\<not> available w \<longrightarrow> fst (getCreds w url s) = Inl CredentialHelperUnavailable) \<and>
      (available w \<longrightarrow>
         getCreds w url s =
           (case fill w url of Inl e \<Rightarrow> Inl e | Inr d \<Rightarrow> Inr (Some d),
            s\<lparr>trace := trace s @ [GchAvailable, GchFill url True]\<rparr>)))"
  by (simp add: getCreds_run split: sum.splits)

theorem getCreds_classifies_by_prefix_witness:
  "startsWith ''git@host:repo.git'' ''git'' \<and>
   fst (getCreds exampleWorld ''git@host:repo.git'' start) = Inr None \<and>
   startsWith ''git://host/repo.git'' ''git'' \<and>
   fst (getCreds exampleWorld ''git://host/repo.git'' start) = Inr None \<and>
   \<not> startsWith ''ssh://git@host/repo.git'' ''git'' \<and>
   \<not> available (exampleWorld\<lparr>available := False\<rparr>) \<and>
   fst (getCreds (exampleWorld\<lparr>available := False\<rparr>) ''ssh://git@host/repo.git'' start) =
     Inl CredentialHelperUnavailable \<and>
   \<not> startsWith ''https://host/repo.git'' ''git'' \<and> available exampleWorld \<and>
   getCreds exampleWorld ''https://host/repo.git'' start =
     (Inr (Some \<lparr>username = Some ''ann'', password = Some ''secret''\<rparr>),
      \<lparr>trace = [GchAvailable, GchFill ''https://host/repo.git'' True], scratch = []\<rparr>)"
  using getCreds_classifies_by_prefix [of "''git@host:repo.git''" exampleWorld start]
    getCreds_classifies_by_prefix [of "''git://host/repo.git''" exampleWorld start]
    getCreds_classifies_by_prefix
      [of "''ssh://git@host/repo.git''" "exampleWorld\<lparr>available := False\<rparr>" start]
    getCreds_classifies_by_prefix [of "''https://host/repo.git''" exampleWorld start]
  by (simp add: startsWith_def exampleWorld_def start_def)

text \<open>
  An ssh-like URL does not keep the helper out of the picture: its availability is
  queried before the URL is looked at.
\<close>

theorem getCreds_ssh_queries_helper:
  "startsWith ''git@host:repo.git'' ''git'' \<and>
   getCreds exampleWorld ''git@host:repo.git'' start =
     (Inr None, \<lparr>trace = [GchAvailable], scratch = []\<rparr>)"
  by (simp add: getCreds_run startsWith_def start_def)

text \<open>
  Claim C5, as the code has it. For a URL that starts with \<^verbatim>\<open>git\<close>, credential
  resolution returns \<open>None\<close>; the helper's availability is queried first (the answer is
  not used) and that query is the only contact with the helper: \<^verbatim>\<open>fill\<close> is never
  called.
\<close>

theorem getCreds_ssh_skips_fill:
  "startsWith url ''git'' \<Longrightarrow>
     getCreds w url s = (Inr None, s\<lparr>trace := trace s @ [GchAvailable]\<rparr>)"
  by (simp add: getCreds_run)

theorem getCreds_ssh_skips_fill_witness:
  "startsWith ''git@host:repo.git'' ''git'' \<and>
   getCreds exampleWorld ''git@host:repo.git'' \<lparr>trace = [RepositoryOpen ''.''], scratch = []\<rparr> =
     (Inr None, \<lparr>trace = [RepositoryOpen ''.'', GchAvailable], scratch = []\<rparr>)"
proof -
  have h: "startsWith ''git@host:repo.git'' ''git''"
    by (simp add: startsWith_def)
  show ?thesis
    using h getCreds_ssh_skips_fill
      [OF h, of exampleWorld "\<lparr>trace = [RepositoryOpen ''.''], scratch = []\<rparr>"]
    by simp
qed


section \<open>The semver package reads back what it writes\<close>

text \<open>
  The planner formats the incremented version and passes the string to
  \<^verbatim>\<open>semver.major\<close>, \<^verbatim>\<open>semver.minor\<close> and \<^verbatim>\<open>semver.prerelease\<close>, which parse it
  again. The lemmas of this section relate the parsed value to the formatted one.
\<close>

subsection \<open>Decimal digits\<close>

lemma digit_cases:
  assumes "d < (10::nat)"
  shows "d = 0 \<or> d = 1 \<or> d = 2 \<or> d = 3 \<or> d = 4 \<or> d = 5 \<or> d = 6 \<or> d = 7 \<or> d = 8 \<or> d = 9"
  using assms by arith

lemma isDigit_digitChar: "d < 10 \<Longrightarrow> isDigit (digitChar d)"
  by (drule digit_cases) (auto simp add: isDigit_def digitChar_def)

lemma digitValue_digitChar: "d < 10 \<Longrightarrow> digitValue (digitChar d) = d"
  by (drule digit_cases) (auto simp add: digitValue_def digitChar_def)

lemma digitChar_zero: "d < 10 \<Longrightarrow> digitChar d = CHR ''0'' \<Longrightarrow> d = 0"
  by (drule digit_cases) (auto simp add: digitChar_def)

lemma dec_small: "n < 10 \<Longrightarrow> dec n = [digitChar n]"
  by (subst dec.simps) simp

lemma dec_large: "\<not> n < 10 \<Longrightarrow> dec n = dec (n div 10) @ [digitChar (n mod 10)]"
  by (subst dec.simps) simp

lemma dec_not_Nil: "dec n \<noteq> []"
  by (cases "n < 10") (simp_all add: dec_small dec_large)

lemma dec_digits: "list_all isDigit (dec n)"
proof (induction n rule: dec.induct)
  case (1 n)
  show ?case
  proof (cases "n < 10")
    case True
    then show ?thesis by (simp add: dec_small isDigit_digitChar)
  next
    case False
    with "1" show ?thesis by (simp add: dec_large isDigit_digitChar)
  qed
qed

lemma toNumber_snoc: "toNumber (xs @ [c]) = 10 * toNumber xs + digitValue c"
  by (simp add: toNumber_def)

lemma toNumber_dec: "toNumber (dec n) = n"
proof (induction n rule: dec.induct)
  case (1 n)
  show ?case
  proof (cases "n < 10")
    case True
    then show ?thesis by (simp add: dec_small toNumber_def digitValue_digitChar)
  next
    case False
    with "1" show ?thesis by (simp add: dec_large toNumber_snoc digitValue_digitChar)
  qed
qed

lemma hd_dec: "0 < n \<Longrightarrow> hd (dec n) \<noteq> CHR ''0''"
proof (induction n rule: dec.induct)
  case (1 n)
  show ?case
  proof (cases "n < 10")
    case True
    with "1.prems" show ?thesis by (auto simp add: dec_small dest: digitChar_zero)
  next
    case False
    then have "0 < n div 10" by simp
    with "1.IH" False have "hd (dec (n div 10)) \<noteq> CHR ''0''" by simp
    with False show ?thesis by (simp add: dec_large dec_not_Nil)
  qed
qed

lemma numericIdentifier_dec: "numericIdentifier (dec n)"
proof (cases "n = 0")
  case True
  then show ?thesis by (simp add: numericIdentifier_def dec_small digitChar_def isDigit_def)
next
  case False
  then have "hd (dec n) \<noteq> CHR ''0''" by (simp add: hd_dec)
  then show ?thesis
    using dec_digits [of n] dec_not_Nil [of n]
    by (cases "dec n") (simp_all add: numericIdentifier_def)
qed

lemma isDigit_hd_dec: "isDigit (hd (dec n))"
  using dec_digits [of n] dec_not_Nil [of n] by (cases "dec n") simp_all

subsection \<open>Matching what format writes\<close>

lemma takeWhile_stop:
  assumes "rest = [] \<or> \<not> P (hd rest)"
  shows "takeWhile P rest = []" and "dropWhile P rest = rest"
  using assms by (cases rest; simp)+

lemma takeWhile_digits:
  assumes "list_all isDigit xs" and "rest = [] \<or> \<not> isDigit (hd rest)"
  shows "takeWhile isDigit (xs @ rest) = xs" and "dropWhile isDigit (xs @ rest) = rest"
  using assms by (induction xs) (simp_all add: takeWhile_stop)

lemma matchNumeric_dec:
  assumes "rest = [] \<or> \<not> isDigit (hd rest)"
  shows "matchNumeric (dec n @ rest) = Some (dec n, rest)"
  using assms
  by (simp add: matchNumeric_def Let_def takeWhile_digits dec_digits numericIdentifier_dec)

lemma split_no_sep: "c \<notin> set x \<Longrightarrow> split c x = [x]"
  by (induction x) auto

lemma split_append: "c \<notin> set x \<Longrightarrow> split c (x @ c # ys) = x # split c ys"
  by (induction x) auto

lemma split_join:
  assumes "xs \<noteq> []" and "\<forall>x \<in> set xs. c \<notin> set x"
  shows "split c (join [c] xs) = xs"
  using assms
proof (induction "[c]" xs rule: join.induct)
  case 1
  then show ?case by simp
next
  case (2 x)
  then show ?case by (simp add: split_no_sep)
next
  case (3 x y ys)
  then show ?case by (simp add: split_append)
qed

lemma trim_id:
  assumes "s \<noteq> []" and "\<not> isWhiteSpace (hd s)" and "\<not> isWhiteSpace (last s)"
  shows "trim s = s"
proof -
  from assms have "dropWhile isWhiteSpace s = s"
    by (cases s) simp_all
  moreover from assms have "dropWhile isWhiteSpace (rev s) = rev s"
    by (cases "rev s") (auto simp add: last_rev [symmetric] simp del: last_rev)
  ultimately show ?thesis by (simp add: trim_def)
qed

subsection \<open>Identifiers\<close>

lemma isDigit_LetterDashNumber: "isDigit c \<Longrightarrow> isLetterDashNumber c"
  by (simp add: isLetterDashNumber_def)

lemma LetterDashNumber_plain:
  assumes "isLetterDashNumber c"
  shows "c \<noteq> CHR ''.''" and "c \<noteq> CHR ''+''" and "\<not> isWhiteSpace c"
  using assms
  by (auto simp add: isLetterDashNumber_def isLetter_def isDigit_def isWhiteSpace_def Let_def)

lemma isDigit_plain:
  assumes "isDigit c"
  shows "c \<noteq> CHR ''v''" and "c \<noteq> CHR ''.''" and "c \<noteq> CHR ''-''" and "\<not> isWhiteSpace c"
  using assms by (auto simp add: isDigit_def isWhiteSpace_def Let_def)

lemma not_isDigit_sep: "\<not> isDigit CHR ''.''" "\<not> isDigit CHR ''-''"
  by (simp_all add: isDigit_def)

lemma wfId_Num: "wfId (Num n)"
  using dec_digits [of n]
  by (simp add: wfId_def identifierString_def dec_not_Nil list_all_iff isDigit_LetterDashNumber)

lemma prereleaseIdentifier_chars:
  assumes "prereleaseIdentifier x"
  shows "x \<noteq> []" and "list_all isLetterDashNumber x"
  using assms
  by (auto simp add: prereleaseIdentifier_def numericIdentifier_def nonNumericIdentifier_def
        list_all_iff isDigit_LetterDashNumber split: list.splits)

lemma wfId_numberify:
  assumes "prereleaseIdentifier x"
  shows "wfId (numberify x)"
proof (cases "numberify x")
  case (Num n)
  then show ?thesis by (simp add: wfId_Num)
next
  case (Str s)
  then have "s = x" by (auto simp add: numberify_def split: if_splits)
  with Str assms show ?thesis
    by (simp add: wfId_def identifierString_def prereleaseIdentifier_chars)
qed

lemma idOk_numberify: "idOk (numberify x)"
  by (simp add: numberify_def idOk_def)

lemma numberify_dec:
  "numberify (dec n) = (if n < MAX_SAFE_INTEGER then Num n else Str (dec n))"
  by (simp add: numberify_def dec_not_Nil dec_digits toNumber_dec)

lemma numberify_identifierString: "idOk i \<Longrightarrow> numberify (identifierString i) = i"
  by (cases i) (simp_all add: idOk_def identifierString_def numberify_dec)

subsection \<open>What the constructor reads back\<close>

lemma join_chars: "set (join sep xs) \<subseteq> set sep \<union> (\<Union>x \<in> set xs. set x)"
  by (induction sep xs rule: join.induct) auto

lemma join_not_Nil: "xs \<noteq> [] \<Longrightarrow> last xs \<noteq> [] \<Longrightarrow> join sep xs \<noteq> []"
  by (induction sep xs rule: join.induct) auto

lemma last_join: "xs \<noteq> [] \<Longrightarrow> last xs \<noteq> [] \<Longrightarrow> last (join sep xs) = last (last xs)"
  by (induction sep xs rule: join.induct) (auto simp add: join_not_Nil)

lemma matchTail_prerelease:
  assumes "ids \<noteq> []" and "\<forall>x \<in> set ids. CHR ''.'' \<notin> set x \<and> CHR ''+'' \<notin> set x"
  shows "matchTail (CHR ''-'' # join ''.'' ids) =
           (if list_all prereleaseIdentifier ids then Some (Some (join ''.'' ids), None)
            else None)"
proof -
  have "CHR ''+'' \<notin> set (join ''.'' ids)"
    using join_chars [of "''.''" ids] assms(2) by auto
  then have t: "takeWhile (\<lambda>x. x \<noteq> CHR ''+'') (join ''.'' ids) = join ''.'' ids"
    and d: "dropWhile (\<lambda>x. x \<noteq> CHR ''+'') (join ''.'' ids) = []"
    by (auto simp add: takeWhile_eq_all_conv)
  have s: "split CHR ''.'' (join ''.'' ids) = ids"
    using assms by (simp add: split_join)
  show ?thesis
    by (simp add: matchTail_def Let_def t d s matchBuild_def)
qed

lemma wfId_plain:
  assumes "wfId i"
  shows "CHR ''.'' \<notin> set (identifierString i)" and "CHR ''+'' \<notin> set (identifierString i)"
  using assms LetterDashNumber_plain by (auto simp add: wfId_def list_all_iff)

lemma matchFull_format:
  assumes "\<forall>i \<in> set (prerelease v). wfId i"
  shows "matchFull (format v) =
           (if prerelease v = [] then
              Some (dec (major v), dec (minor v), dec (patch v), None, None)
            else if list_all prereleaseIdentifier (map identifierString (prerelease v)) then
              Some (dec (major v), dec (minor v), dec (patch v),
                    Some (join ''.'' (map identifierString (prerelease v))), None)
            else None)"
proof -
  let ?tail = "if prerelease v = [] then []
               else CHR ''-'' # join ''.'' (map identifierString (prerelease v))"
  have f: "format v = dec (major v) @ CHR ''.'' # dec (minor v) @ CHR ''.'' # dec (patch v) @ ?tail"
    by (simp add: format_def)
  have v: "(case format v of [] \<Rightarrow> format v | c # t \<Rightarrow> if c = CHR ''v'' then t else format v) =
      format v"
    using isDigit_hd_dec [of "major v"] dec_not_Nil [of "major v"] isDigit_plain(1)
    by (cases "dec (major v)") (auto simp add: f)
  have stop: "?tail = [] \<or> \<not> isDigit (hd ?tail)"
    by (simp add: not_isDigit_sep)
  have tail: "matchTail ?tail =
      (if prerelease v = [] then Some (None, None)
       else if list_all prereleaseIdentifier (map identifierString (prerelease v)) then
         Some (Some (join ''.'' (map identifierString (prerelease v))), None)
       else None)"
    using assms by (simp add: matchTail_prerelease wfId_plain) (simp add: matchTail_def)
  show ?thesis
    unfolding matchFull_def Let_def v
    apply (subst f)
    apply (simp only: matchNumeric_dec not_isDigit_sep list.sel simp_thms option.case prod.case
        list.case if_False if_True)
    apply (simp only: matchNumeric_dec [OF stop] option.case prod.case tail)
    apply (simp split: if_splits)
    done
qed

lemma format_not_Nil: "format v \<noteq> []"
  by (simp add: format_def dec_not_Nil)

lemma hd_format: "hd (format v) = hd (dec (major v))"
  by (simp add: format_def dec_not_Nil)

lemma last_dec_digit: "isDigit (last (dec n))"
  using dec_digits [of n] dec_not_Nil [of n] by (simp add: list_all_iff)

lemma last_format:
  assumes "prerelease v \<noteq> [] \<Longrightarrow> identifierString (last (prerelease v)) \<noteq> []"
  shows "last (format v) =
           (if prerelease v = [] then last (dec (patch v))
            else last (identifierString (last (prerelease v))))"
proof (cases "prerelease v = []")
  case True
  then show ?thesis by (simp add: format_def dec_not_Nil)
next
  case False
  let ?ids = "map identifierString (prerelease v)"
  from False assms have l: "?ids \<noteq> []" "last ?ids \<noteq> []"
    by (simp_all add: last_map)
  then have "join ''.'' ?ids \<noteq> []" by (rule join_not_Nil)
  with False l show ?thesis
    by (simp add: format_def last_join last_map)
qed

lemma trim_format:
  assumes "prerelease v \<noteq> [] \<Longrightarrow>
             identifierString (last (prerelease v)) \<noteq> [] \<and>
             \<not> isWhiteSpace (last (identifierString (last (prerelease v))))"
  shows "trim (format v) = format v"
proof (rule trim_id)
  show "format v \<noteq> []" by (rule format_not_Nil)
  show "\<not> isWhiteSpace (hd (format v))"
    using isDigit_hd_dec [of "major v"] by (simp add: hd_format isDigit_plain)
  show "\<not> isWhiteSpace (last (format v))"
    using assms last_dec_digit [of "patch v"]
    by (simp add: last_format isDigit_plain)
qed

lemma wfId_last:
  assumes "wfId i"
  shows "identifierString i \<noteq> []" and "\<not> isWhiteSpace (last (identifierString i))"
  using assms LetterDashNumber_plain(3) [of "last (identifierString i)"]
  by (auto simp add: wfId_def list_all_iff)

lemma SemVer_new_format:
  assumes wf: "\<forall>i \<in> set (prerelease v). wfId i"
    and new: "SemVer_new (format v) = Inr v'"
  shows "major v' = major v \<and> minor v' = minor v \<and> patch v' = patch v \<and>
         prerelease v' = map (\<lambda>i. numberify (identifierString i)) (prerelease v)"
proof -
  have "trim (format v) = format v"
    using wf by (intro trim_format) (simp add: wfId_last)
  with new show ?thesis
    by (auto simp add: SemVer_new_def matchFull_format [OF wf] toNumber_dec split_join
          wfId_plain wf comp_def split: if_splits)
qed

lemma matchFull_prerelease:
  assumes "matchFull s = Some (m1, m2, m3, Some p, m5)"
  shows "list_all prereleaseIdentifier (split CHR ''.'' p)"
  using assms
  by (auto simp add: matchFull_def matchTail_def Let_def
        split: option.splits list.splits if_splits)

lemma SemVer_new_wf:
  assumes "SemVer_new s = Inr v"
  shows "\<forall>i \<in> set (prerelease v). wfId i \<and> idOk i"
proof -
  from assms obtain m1 m2 m3 m4 m5 where
    m: "matchFull (trim s) = Some (m1, m2, m3, m4, m5)" and
    p: "prerelease v = (case m4 of None \<Rightarrow> [] | Some p \<Rightarrow> map numberify (split CHR ''.'' p))"
    by (auto simp add: SemVer_new_def split: if_splits option.splits)
  show ?thesis
  proof (cases m4)
    case None
    with p show ?thesis by simp
  next
    case (Some q)
    with m have "list_all prereleaseIdentifier (split CHR ''.'' q)"
      by (simp add: matchFull_prerelease)
    with p Some show ?thesis
      by (auto simp add: list_all_iff wfId_numberify idOk_numberify)
  qed
qed

subsection \<open>Incrementing\<close>

lemma bumpLast_wf:
  assumes "bumpLast xs = Some ys" and "\<forall>i \<in> set xs. wfId i"
  shows "\<forall>i \<in> set ys. wfId i"
  using assms
  by (induction xs arbitrary: ys) (auto simp add: wfId_Num split: option.splits ident.splits)

lemma SemVer_inc_shape:
  assumes "\<forall>i \<in> set (prerelease v). wfId i" and "SemVer_inc v lvl p = Inr v1"
  shows "(\<forall>i \<in> set (prerelease v1). wfId i) \<or> (\<exists>x. prerelease v1 = [Str x, Num 0])"
proof -
  have pre: "(\<forall>i \<in> set (prerelease (incPre u p)). wfId i) \<or>
             (\<exists>x. prerelease (incPre u p) = [Str x, Num 0])"
    if "\<forall>i \<in> set (prerelease u). wfId i" for u
    using that bumpLast_wf [of "prerelease u"]
    by (auto simp add: incPre_def Let_def wfId_Num split: option.splits)
  have patch: "\<forall>i \<in> set (prerelease (incPatch u)). wfId i"
    if "\<forall>i \<in> set (prerelease u). wfId i" for u
    using that by (simp add: incPatch_def)
  from assms(2) consider
      (pre) u where "v1 = incPre u p" "\<forall>i \<in> set (prerelease u). wfId i"
    | (plain) "\<forall>i \<in> set (prerelease v1). wfId i"
    using assms(1) patch [of v] patch [of "v\<lparr>prerelease := []\<rparr>"]
    by (auto simp add: SemVer_inc_def split: if_splits)
  then show ?thesis
    using pre by cases auto
qed

lemma SemVer_inc_wf:
  assumes "\<forall>i \<in> set (prerelease v). wfId i" and "SemVer_inc v lvl None = Inr v1"
  shows "\<forall>i \<in> set (prerelease v1). wfId i"
proof -
  have pre: "\<forall>i \<in> set (prerelease (incPre u None)). wfId i"
    if "\<forall>i \<in> set (prerelease u). wfId i" for u
    using that bumpLast_wf [of "prerelease u"]
    by (auto simp add: incPre_def Let_def wfId_Num split: option.splits)
  have patch: "\<forall>i \<in> set (prerelease (incPatch u)). wfId i"
    if "\<forall>i \<in> set (prerelease u). wfId i" for u
    using that by (simp add: incPatch_def)
  from assms(2) consider
      (pre) u where "v1 = incPre u None" "\<forall>i \<in> set (prerelease u). wfId i"
    | (plain) "\<forall>i \<in> set (prerelease v1). wfId i"
    using assms(1) patch [of v] patch [of "v\<lparr>prerelease := []\<rparr>"]
    by (auto simp add: SemVer_inc_def split: if_splits)
  then show ?thesis
    using pre by cases auto
qed

subsection \<open>Ordering\<close>

lemma compareIdentifiers_Num:
  "compareIdentifiers (Num a) (Num b) = (if a < b then - 1 else if b < a then 1 else 0)"
  by (simp add: compareIdentifiers_def isNumeric_def numberOf_def)

lemma MAX_SAFE_INTEGER_exact: "n \<le> MAX_SAFE_INTEGER \<Longrightarrow> jsNumber n = n"
  by (simp add: jsNumber_def MAX_SAFE_INTEGER_def)

lemma numberify_Suc_greater:
  assumes "n < MAX_SAFE_INTEGER"
  shows "numberify (dec (n + 1)) \<noteq> Num n"
    and "compareIdentifiers (numberify (dec (n + 1))) (Num n) = 1"
proof -
  show "numberify (dec (n + 1)) \<noteq> Num n"
    by (simp add: numberify_dec)
  show "compareIdentifiers (numberify (dec (n + 1))) (Num n) = 1"
  proof (cases "n + 1 < MAX_SAFE_INTEGER")
    case True
    then show ?thesis by (simp add: numberify_dec compareIdentifiers_Num)
  next
    case False
    with assms have "n + 1 \<le> MAX_SAFE_INTEGER" by simp
    then have "jsNumber (n + 1) = n + 1" by (rule MAX_SAFE_INTEGER_exact)
    with False show ?thesis
      by (simp add: numberify_dec compareIdentifiers_def isNumeric_def numberOf_def
            isDigits_def dec_not_Nil dec_digits toNumber_dec)
  qed
qed

lemma comparePreLoop_bumped:
  assumes "bumpLast xs = Some ys" and "\<forall>i \<in> set xs. idOk i"
  shows "comparePreLoop (map (\<lambda>i. numberify (identifierString i)) ys) xs = 1"
  using assms
proof (induction xs arbitrary: ys)
  case Nil
  then show ?case by simp
next
  case (Cons x xs)
  show ?case
  proof (cases "bumpLast xs")
    case (Some zs)
    with Cons.prems have "ys = x # zs" by simp
    moreover have "numberify (identifierString x) = x"
      using Cons.prems by (simp add: numberify_identifierString)
    ultimately show ?thesis
      using Cons.IH [OF Some] Cons.prems by simp
  next
    case None
    with Cons.prems obtain n where x: "x = Num n" and ys: "ys = Num (n + 1) # xs"
      by (auto split: ident.splits)
    from x Cons.prems have "n < MAX_SAFE_INTEGER" by (simp add: idOk_def)
    then show ?thesis
      using numberify_Suc_greater [of n] by (simp add: x ys identifierString_def)
  qed
qed

lemma comparePreLoop_pushed:
  assumes "\<forall>i \<in> set xs. idOk i"
  shows "comparePreLoop (map (\<lambda>i. numberify (identifierString i)) (xs @ [Num 0])) xs = 1"
  using assms
  by (induction xs) (simp_all add: numberify_identifierString)

lemma comparePre_incPre:
  assumes "prerelease v \<noteq> []" and "\<forall>i \<in> set (prerelease v). idOk i"
  shows "comparePreLoop
           (map (\<lambda>i. numberify (identifierString i)) (prerelease (incPre v None)))
           (prerelease v) = 1"
proof (cases "bumpLast (prerelease v)")
  case None
  with assms(1) have "prerelease (incPre v None) = prerelease v @ [Num 0]"
    by (simp add: incPre_def)
  then show ?thesis
    using comparePreLoop_pushed [OF assms(2)] by simp
next
  case (Some ys)
  with assms(1) have "prerelease (incPre v None) = ys"
    by (simp add: incPre_def)
  then show ?thesis
    using comparePreLoop_bumped [OF Some assms(2)] by simp
qed

lemma prerelease_incPre_not_Nil: "prerelease (incPre v p) \<noteq> []"
proof -
  have "bumpLast xs = Some ys \<Longrightarrow> ys \<noteq> []" for xs ys
    by (cases xs) (auto split: option.splits ident.splits)
  then show ?thesis
    by (auto simp add: incPre_def Let_def split: option.splits)
qed

lemma main_incPre: "major (incPre v p) = major v" "minor (incPre v p) = minor v"
  "patch (incPre v p) = patch v"
  by (simp_all add: incPre_def Let_def split: option.splits)

lemma SemVer_inc_greater:
  assumes new0: "SemVer_new cur = Inr v0"
    and lvl: "lvl \<in> set releaseLevels"
    and inc: "SemVer_inc v0 lvl None = Inr v1"
    and new1: "SemVer_new (format v1) = Inr v1'"
  shows "SemVer_compare v1' v0 = 1"
proof -
  from new0 have wf0: "\<forall>i \<in> set (prerelease v0). wfId i"
    and ok0: "\<forall>i \<in> set (prerelease v0). idOk i"
    using SemVer_new_wf by blast+
  from wf0 inc have wf1: "\<forall>i \<in> set (prerelease v1). wfId i"
    by (rule SemVer_inc_wf)
  from SemVer_new_format [OF wf1 new1]
  have m: "major v1' = major v1" "minor v1' = minor v1" "patch v1' = patch v1"
    and p: "prerelease v1' = map (\<lambda>i. numberify (identifierString i)) (prerelease v1)"
    by simp_all
  from lvl have "lvl = ''major'' \<or> lvl = ''minor'' \<or> lvl = ''patch'' \<or>
      lvl = ''premajor'' \<or> lvl = ''preminor'' \<or> lvl = ''prerelease''"
    by (simp add: releaseLevels_def)
  then show ?thesis
  proof (elim disjE)
    assume 1: "lvl = ''major''"
    from 1 inc have "v1 = (if minor v0 \<noteq> 0 \<or> patch v0 \<noteq> 0 \<or> prerelease v0 = []
                         then v0\<lparr>major := major v0 + 1\<rparr> else v0)
                        \<lparr>minor := 0, patch := 0, prerelease := []\<rparr>"
      by (simp add: SemVer_inc_def)
    then show ?thesis
      by (simp add: SemVer_compare_def compareMain_def comparePre_def
            compareIdentifiers_Num m p Let_def)
  next
    assume 2: "lvl = ''minor''"
    from 2 inc have "v1 = (if patch v0 \<noteq> 0 \<or> prerelease v0 = []
                         then v0\<lparr>minor := minor v0 + 1\<rparr> else v0)
                        \<lparr>patch := 0, prerelease := []\<rparr>"
      by (simp add: SemVer_inc_def)
    then show ?thesis
      by (simp add: SemVer_compare_def compareMain_def comparePre_def
            compareIdentifiers_Num m p Let_def)
  next
    assume 3: "lvl = ''patch''"
    from 3 inc have "v1 = incPatch v0"
      by (simp add: SemVer_inc_def)
    then show ?thesis
      by (simp add: incPatch_def SemVer_compare_def compareMain_def comparePre_def
            compareIdentifiers_Num m p Let_def)
  next
    assume 4: "lvl = ''premajor''"
    from 4 inc have "v1 = incPre (v0\<lparr>prerelease := [], patch := 0, minor := 0,
                                    major := major v0 + 1\<rparr>) None"
      by (simp add: SemVer_inc_def)
    then show ?thesis
      by (simp add: SemVer_compare_def compareMain_def compareIdentifiers_Num m main_incPre
            Let_def)
  next
    assume 5: "lvl = ''preminor''"
    from 5 inc have "v1 = incPre (v0\<lparr>prerelease := [], patch := 0,
                                    minor := minor v0 + 1\<rparr>) None"
      by (simp add: SemVer_inc_def)
    then show ?thesis
      by (simp add: SemVer_compare_def compareMain_def compareIdentifiers_Num m main_incPre
            Let_def)
  next
    assume 6: "lvl = ''prerelease''"
    show ?thesis
    proof (cases "prerelease v0 = []")
      case True
      with 6 inc have "v1 = incPre (incPatch v0) None"
        by (simp add: SemVer_inc_def)
      with True show ?thesis
        by (simp add: incPatch_def SemVer_compare_def compareMain_def
              compareIdentifiers_Num m main_incPre Let_def)
    next
      case False
      with 6 inc have v1: "v1 = incPre v0 None"
        by (simp add: SemVer_inc_def)
      have "prerelease v1' \<noteq> []"
        by (simp add: p v1 prerelease_incPre_not_Nil)
      moreover have "comparePreLoop (prerelease v1') (prerelease v0) = 1"
        using comparePre_incPre [OF False ok0] by (simp add: p v1)
      ultimately show ?thesis
        using False
        by (simp add: SemVer_compare_def compareMain_def comparePre_def
              compareIdentifiers_Num m v1 main_incPre Let_def)
    qed
  qed
qed


subsection \<open>What the constructor accepts\<close>

text \<open>
  The three numbers of a formatted version are read back whatever follows them, and a
  formatted version is accepted when it is short enough, its numbers are safe integers
  and its prerelease identifiers are identifiers.
\<close>

lemma matchFull_format_main:
  "matchFull (format v) =
     (case matchTail (if prerelease v = [] then []
                      else CHR ''-'' # join ''.'' (map identifierString (prerelease v))) of
        None \<Rightarrow> None
      | Some (m4, m5) \<Rightarrow> Some (dec (major v), dec (minor v), dec (patch v), m4, m5))"
proof -
  let ?tail = "if prerelease v = [] then []
               else CHR ''-'' # join ''.'' (map identifierString (prerelease v))"
  have f: "format v = dec (major v) @ CHR ''.'' # dec (minor v) @ CHR ''.'' # dec (patch v) @ ?tail"
    by (simp add: format_def)
  have v: "(case format v of [] \<Rightarrow> format v | c # t \<Rightarrow> if c = CHR ''v'' then t else format v) =
      format v"
    using isDigit_hd_dec [of "major v"] dec_not_Nil [of "major v"] isDigit_plain(1)
    by (cases "dec (major v)") (auto simp add: f)
  have stop: "?tail = [] \<or> \<not> isDigit (hd ?tail)"
    by (simp add: not_isDigit_sep)
  show ?thesis
    unfolding matchFull_def Let_def v
    apply (subst f)
    apply (simp only: matchNumeric_dec not_isDigit_sep list.sel simp_thms option.case prod.case
        list.case if_False if_True)
    apply (simp only: matchNumeric_dec [OF stop] option.case prod.case)
    done
qed

lemma SemVer_new_format_main:
  assumes "trim (format v) = format v" and "SemVer_new (format v) = Inr v'"
  shows "major v' = major v" and "minor v' = minor v" and "patch v' = patch v"
  using assms
  by (auto simp add: SemVer_new_def matchFull_format_main toNumber_dec
        split: if_splits option.splits)

lemma prereleaseIdentifier_Num: "prereleaseIdentifier (identifierString (Num n))"
  by (simp add: identifierString_def prereleaseIdentifier_def numericIdentifier_dec)

lemma bumpLast_pre:
  assumes "bumpLast xs = Some ys"
    and "\<forall>i \<in> set xs. prereleaseIdentifier (identifierString i)"
  shows "\<forall>i \<in> set ys. prereleaseIdentifier (identifierString i)"
  using assms
  by (induction xs arbitrary: ys)
     (auto simp add: prereleaseIdentifier_Num split: option.splits ident.splits)

lemma SemVer_inc_pre:
  assumes "\<forall>i \<in> set (prerelease v). prereleaseIdentifier (identifierString i)"
    and "case p of None \<Rightarrow> True | Some i \<Rightarrow> i = [] \<or> prereleaseIdentifier i"
    and "SemVer_inc v lvl p = Inr v1"
  shows "\<forall>i \<in> set (prerelease v1). prereleaseIdentifier (identifierString i)"
proof -
  have str: "identifierString (Str x) = x" for x
    by (simp add: identifierString_def)
  have pre: "\<forall>i \<in> set (prerelease (incPre u p)). prereleaseIdentifier (identifierString i)"
    if "\<forall>i \<in> set (prerelease u). prereleaseIdentifier (identifierString i)" for u
    using that bumpLast_pre [of "prerelease u"] assms(2)
    by (auto simp add: incPre_def Let_def prereleaseIdentifier_Num str split: option.splits)
  have patch: "\<forall>i \<in> set (prerelease (incPatch u)). prereleaseIdentifier (identifierString i)"
    if "\<forall>i \<in> set (prerelease u). prereleaseIdentifier (identifierString i)" for u
    using that by (simp add: incPatch_def)
  from assms(3) consider
      (pre) u where "v1 = incPre u p"
        "\<forall>i \<in> set (prerelease u). prereleaseIdentifier (identifierString i)"
    | (plain) "\<forall>i \<in> set (prerelease v1). prereleaseIdentifier (identifierString i)"
    using assms(1) patch [of v] patch [of "v\<lparr>prerelease := []\<rparr>"]
    by (auto simp add: SemVer_inc_def split: if_splits)
  then show ?thesis
    using pre by cases auto
qed

lemma SemVer_inc_main:
  assumes "SemVer_inc v lvl p = Inr v1"
  shows "major v1 \<le> Suc (major v)" and "minor v1 \<le> Suc (minor v)"
    and "patch v1 \<le> Suc (patch v)"
  using assms
  by (auto simp add: SemVer_inc_def main_incPre incPatch_def split: if_splits)

lemma SemVer_new_accepts:
  assumes ok: "\<forall>i \<in> set (prerelease v). prereleaseIdentifier (identifierString i)"
    and len: "length (format v) \<le> MAX_LENGTH"
    and main: "major v \<le> MAX_SAFE_INTEGER" "minor v \<le> MAX_SAFE_INTEGER"
      "patch v \<le> MAX_SAFE_INTEGER"
  shows "\<exists>v'. SemVer_new (format v) = Inr v'"
proof -
  from ok have wf: "\<forall>i \<in> set (prerelease v). wfId i"
    by (simp add: wfId_def prereleaseIdentifier_chars)
  have t: "trim (format v) = format v"
    using wf by (intro trim_format) (simp add: wfId_last)
  from ok have all: "list_all prereleaseIdentifier (map identifierString (prerelease v))"
    by (simp add: list_all_iff)
  show ?thesis
    using len main
    by (simp add: SemVer_new_def t matchFull_format [OF wf] all toNumber_dec not_less [symmetric])
qed

subsection \<open>Writing back what the constructor read\<close>

text \<open>
  Formatting a version that the constructor has read gives a piece of the string it was
  read from: the numbers have no leading zeros and each prerelease identifier is
  written as it was found.
\<close>

lemma isDigit_digitValue:
  assumes "isDigit c"
  shows "digitValue c < 10" and "digitChar (digitValue c) = c"
proof -
  from assms have b: "48 \<le> (of_char c :: nat)" "(of_char c :: nat) \<le> 57"
    by (simp_all add: isDigit_def Let_def)
  then show "digitValue c < 10" by (simp add: digitValue_def)
  from b have "(of_char c :: nat) = 48 \<or> (of_char c :: nat) = 49 \<or> (of_char c :: nat) = 50 \<or>
      (of_char c :: nat) = 51 \<or> (of_char c :: nat) = 52 \<or> (of_char c :: nat) = 53 \<or>
      (of_char c :: nat) = 54 \<or> (of_char c :: nat) = 55 \<or> (of_char c :: nat) = 56 \<or>
      (of_char c :: nat) = 57"
    by arith
  then have "(of_char (digitChar (digitValue c)) :: nat) = of_char c"
    by (elim disjE) (simp_all add: digitValue_def digitChar_def)
  then show "digitChar (digitValue c) = c"
    by (simp only: of_char_eq_iff)
qed

lemma dec_toNumber_aux:
  assumes "list_all isDigit s" and "s \<noteq> []" and "hd s \<noteq> CHR ''0''"
  shows "0 < toNumber s \<and> dec (toNumber s) = s"
  using assms
proof (induction s rule: rev_induct)
  case Nil
  then show ?case by simp
next
  case (snoc c xs)
  from snoc.prems have dc: "isDigit c" and dx: "list_all isDigit xs" by simp_all
  show ?case
  proof (cases "xs = []")
    case True
    with snoc.prems have "c \<noteq> CHR ''0''" by simp
    with dc isDigit_digitValue [OF dc] have "0 < digitValue c"
      by (cases "digitValue c = 0") (auto simp add: digitChar_def)
    with True isDigit_digitValue [OF dc] show ?thesis
      by (simp add: toNumber_def dec_small)
  next
    case False
    with snoc.prems have "hd xs \<noteq> CHR ''0''" by simp
    with snoc.IH dx False have ih: "0 < toNumber xs" "dec (toNumber xs) = xs" by simp_all
    have d: "digitValue c < 10" using isDigit_digitValue [OF dc] by simp
    have n: "toNumber (xs @ [c]) = 10 * toNumber xs + digitValue c"
      by (rule toNumber_snoc)
    from ih(1) have big: "\<not> 10 * toNumber xs + digitValue c < 10" by simp
    from d have dv: "(10 * toNumber xs + digitValue c) div 10 = toNumber xs"
      and md: "(10 * toNumber xs + digitValue c) mod 10 = digitValue c"
      by simp_all
    show ?thesis
      using ih(1) isDigit_digitValue(2) [OF dc]
      by (simp only: n dec_large [OF big] dv md ih(2)) simp
  qed
qed

lemma dec_toNumber:
  assumes "numericIdentifier s"
  shows "dec (toNumber s) = s"
proof (cases "s = ''0''")
  case True
  then show ?thesis by (simp add: toNumber_def digitValue_def dec_small digitChar_def)
next
  case False
  with assms have "list_all isDigit s" "s \<noteq> []" "hd s \<noteq> CHR ''0''"
    by (auto simp add: numericIdentifier_def split: list.splits)
  then show ?thesis using dec_toNumber_aux by blast
qed

lemma identifierString_numberify:
  assumes "prereleaseIdentifier x"
  shows "identifierString (numberify x) = x"
proof (cases "numberify x")
  case (Num n)
  then have "list_all isDigit x" and n: "n = toNumber x"
    by (auto simp add: numberify_def split: if_splits)
  with assms have "numericIdentifier x"
    by (simp add: prereleaseIdentifier_def nonNumericIdentifier_def)
  then show ?thesis
    using Num n by (simp add: identifierString_def dec_toNumber)
next
  case (Str s)
  then show ?thesis
    by (auto simp add: numberify_def identifierString_def split: if_splits)
qed

lemma split_not_Nil: "split c s \<noteq> []"
  by (induction s) (auto split: list.splits)

lemma join_split: "join [c] (split c s) = s"
proof (induction s)
  case Nil
  then show ?case by simp
next
  case (Cons x xs)
  show ?case
  proof (cases "split c xs")
    case Nil
    then show ?thesis using split_not_Nil [of c xs] by simp
  next
    case (Cons y ys)
    with Cons.IH show ?thesis by (cases ys) auto
  qed
qed

lemma length_trim: "length (trim s) \<le> length s"
proof -
  have "length (dropWhile isWhiteSpace (rev (dropWhile isWhiteSpace s))) \<le>
      length (rev (dropWhile isWhiteSpace s))"
    by (rule length_dropWhile_le)
  also have "\<dots> \<le> length s"
    by (simp add: length_dropWhile_le)
  finally show ?thesis by (simp add: trim_def)
qed


lemma matchNumeric_parts:
  assumes "matchNumeric s = Some (m, r)"
  shows "numericIdentifier m" and "s = m @ r"
  using assms by (auto simp add: matchNumeric_def Let_def split: if_splits)

lemma matchTail_parts:
  assumes "matchTail r = Some (Some p, m5)"
  shows "list_all prereleaseIdentifier (split CHR ''.'' p)" and "length p + 1 \<le> length r"
  using assms length_takeWhile_le [of "\<lambda>x. x \<noteq> CHR ''+''" "tl r"]
  by (auto simp add: matchTail_def Let_def split: list.splits if_splits option.splits)

lemma matchFull_parts:
  assumes "matchFull s = Some (m1, m2, m3, m4, m5)"
  shows "numericIdentifier m1" and "numericIdentifier m2" and "numericIdentifier m3"
    and "case m4 of None \<Rightarrow> True | Some p \<Rightarrow> list_all prereleaseIdentifier (split CHR ''.'' p)"
    and "length m1 + length m2 + length m3 + 2 +
           (case m4 of None \<Rightarrow> 0 | Some p \<Rightarrow> length p + 1) \<le> length s"
proof -
  let ?s0 = "case s of [] \<Rightarrow> s | c # t \<Rightarrow> if c = CHR ''v'' then t else s"
  from assms obtain r1 s1 r2 s2 r3 where
    n1: "matchNumeric ?s0 = Some (m1, r1)" and r1: "r1 = CHR ''.'' # s1" and
    n2: "matchNumeric s1 = Some (m2, r2)" and r2: "r2 = CHR ''.'' # s2" and
    n3: "matchNumeric s2 = Some (m3, r3)" and t: "matchTail r3 = Some (m4, m5)"
    by (auto simp add: matchFull_def Let_def split: option.splits list.splits if_splits)
  from n1 n2 n3 show "numericIdentifier m1" "numericIdentifier m2" "numericIdentifier m3"
    by (simp_all add: matchNumeric_parts(1))
  from t show "case m4 of None \<Rightarrow> True
      | Some p \<Rightarrow> list_all prereleaseIdentifier (split CHR ''.'' p)"
    by (cases m4) (simp_all add: matchTail_parts(1))
  have "?s0 = m1 @ CHR ''.'' # m2 @ CHR ''.'' # m3 @ r3"
    using matchNumeric_parts(2) [OF n1] matchNumeric_parts(2) [OF n2]
      matchNumeric_parts(2) [OF n3] r1 r2 by simp
  then have "length m1 + length m2 + length m3 + 2 + length r3 = length ?s0"
    by simp
  moreover have "length ?s0 \<le> length s"
    by (cases s) simp_all
  moreover have "(case m4 of None \<Rightarrow> 0 | Some p \<Rightarrow> length p + 1) \<le> length r3"
    using t matchTail_parts(2) [of r3 _ m5] by (cases m4) auto
  ultimately show "length m1 + length m2 + length m3 + 2 +
           (case m4 of None \<Rightarrow> 0 | Some p \<Rightarrow> length p + 1) \<le> length s"
    by linarith
qed

lemma SemVer_new_parts:
  assumes "SemVer_new cur = Inr v"
  shows "\<forall>i \<in> set (prerelease v). prereleaseIdentifier (identifierString i)"
    and "length (format v) \<le> length cur"
proof -
  from assms obtain m1 m2 m3 m4 m5 where
    m: "matchFull (trim cur) = Some (m1, m2, m3, m4, m5)" and
    v: "v = \<lparr> major = toNumber m1, minor = toNumber m2, patch = toNumber m3,
              prerelease = (case m4 of None \<Rightarrow> []
                            | Some p \<Rightarrow> map numberify (split CHR ''.'' p)),
              build = (case m5 of None \<Rightarrow> [] | Some b \<Rightarrow> split CHR ''.'' b) \<rparr>"
    by (auto simp add: SemVer_new_def split: if_splits option.splits)
  note parts = matchFull_parts [OF m]
  have ids: "map identifierString (prerelease v) =
      (case m4 of None \<Rightarrow> [] | Some p \<Rightarrow> split CHR ''.'' p)"
  proof (cases m4)
    case None
    then show ?thesis by (simp add: v)
  next
    case (Some p)
    with parts(4) have "\<forall>x \<in> set (split CHR ''.'' p). identifierString (numberify x) = x"
      by (simp add: list_all_iff identifierString_numberify)
    then have "map (\<lambda>x. identifierString (numberify x)) (split CHR ''.'' p) = split CHR ''.'' p"
      by (simp add: map_idI)
    with Some show ?thesis by (simp add: v comp_def)
  qed
  have "\<forall>x \<in> set (map identifierString (prerelease v)). prereleaseIdentifier x"
    using parts(4) unfolding ids by (cases m4) (simp_all add: list_all_iff)
  then show "\<forall>i \<in> set (prerelease v). prereleaseIdentifier (identifierString i)"
    by simp
  have "format v = m1 @ ''.'' @ m2 @ ''.'' @ m3 @
      (case m4 of None \<Rightarrow> [] | Some p \<Rightarrow> ''-'' @ p)"
  proof (cases m4)
    case None
    then show ?thesis
      using parts(1-3) by (simp add: format_def v dec_toNumber)
  next
    case (Some p)
    have "prerelease v \<noteq> []"
      using Some split_not_Nil [of "CHR ''.''" p] by (simp add: v)
    moreover have "join ''.'' (map identifierString (prerelease v)) = p"
      unfolding ids using Some by (simp add: join_split)
    moreover have "dec (major v) = m1" "dec (minor v) = m2" "dec (patch v) = m3"
      using parts(1-3) by (simp_all add: v dec_toNumber)
    ultimately show ?thesis
      using Some by (simp add: format_def)
  qed
  then have "length (format v) = length m1 + length m2 + length m3 + 2 +
           (case m4 of None \<Rightarrow> 0 | Some p \<Rightarrow> length p + 1)"
    by (cases m4) simp_all
  with parts(5) have "length (format v) \<le> length (trim cur)" by simp
  with length_trim [of cur] show "length (format v) \<le> length cur" by simp
qed

subsection \<open>Lengths\<close>

text \<open>
  An increment makes the formatted version at most three characters longer, apart from
  the identifier it is given.
\<close>

lemma length_dec_Suc: "length (dec (Suc n)) \<le> Suc (length (dec n))"
proof (induction n rule: dec.induct)
  case (1 n)
  consider "n < 9" | "n = 9" | "\<not> n < 10" by linarith
  then show ?case
  proof cases
    case 1
    then show ?thesis by (simp add: dec_small)
  next
    case 2
    then show ?thesis by (simp add: dec_small dec_large)
  next
    case 3
    then have big: "\<not> Suc n < 10" by simp
    from 3 "1.IH" have ih: "length (dec (Suc (n div 10))) \<le> Suc (length (dec (n div 10)))"
      by simp
    have "Suc n div 10 = n div 10 \<or> Suc n div 10 = Suc (n div 10)"
      by (simp add: div_Suc)
    then show ?thesis
      using ih by (auto simp add: dec_large [OF 3] dec_large [OF big])
  qed
qed

lemma length_dec_zero: "length (dec 0) \<le> length (dec n)"
  using dec_not_Nil [of n] by (cases "dec n") (simp_all add: dec_small)

lemma length_join:
  "length (join sep xs) = sum_list (map length xs) + length sep * (length xs - 1)"
  by (induction sep xs rule: join.induct) auto

lemma length_format:
  "length (format v) =
     length (dec (major v)) + length (dec (minor v)) + length (dec (patch v)) + 2 +
     sum_list (map (\<lambda>i. Suc (length (identifierString i))) (prerelease v))"
proof (cases "prerelease v")
  case Nil
  then show ?thesis by (simp add: format_def)
next
  case (Cons i rest)
  have "sum_list (map (\<lambda>i. Suc (length (identifierString i))) xs) =
      sum_list (map length (map identifierString xs)) + length xs" for xs
    by (induction xs) simp_all
  with Cons show ?thesis
    by (simp add: format_def length_join comp_def)
qed

lemma bumpLast_length:
  assumes "bumpLast xs = Some ys"
  shows "sum_list (map (\<lambda>i. Suc (length (identifierString i))) ys) \<le>
         Suc (sum_list (map (\<lambda>i. Suc (length (identifierString i))) xs))"
  using assms
proof (induction xs arbitrary: ys)
  case Nil
  then show ?case by simp
next
  case (Cons x xs)
  show ?case
  proof (cases "bumpLast xs")
    case (Some zs)
    with Cons.prems have "ys = x # zs" by simp
    with Cons.IH [OF Some] show ?thesis by simp
  next
    case None
    with Cons.prems obtain n where "x = Num n" "ys = Num (n + 1) # xs"
      by (auto split: ident.splits)
    then show ?thesis
      using length_dec_Suc [of n] by (simp add: identifierString_def)
  qed
qed

lemma incPre_length:
  "sum_list (map (\<lambda>i. Suc (length (identifierString i))) (prerelease (incPre u p))) \<le>
   sum_list (map (\<lambda>i. Suc (length (identifierString i))) (prerelease u)) + 2 +
   (case p of None \<Rightarrow> 0 | Some i \<Rightarrow> length i + 1)"
proof -
  let ?T = "\<lambda>xs. sum_list (map (\<lambda>i. Suc (length (identifierString i))) xs)"
  define q where "q = (if prerelease u = [] then [Num 0]
               else (case bumpLast (prerelease u) of
                       Some ys \<Rightarrow> ys
                     | None \<Rightarrow> prerelease u @ [Num 0]))"
  have z: "length (dec 0) = 1" by (simp add: dec_small)
  have q: "?T q \<le> ?T (prerelease u) + 2"
  proof (cases "prerelease u = []")
    case True
    then show ?thesis by (simp add: q_def identifierString_def z)
  next
    case False
    show ?thesis
    proof (cases "bumpLast (prerelease u)")
      case None
      with False show ?thesis by (simp add: q_def identifierString_def z)
    next
      case (Some ys)
      with False bumpLast_length [OF Some] show ?thesis by (simp add: q_def)
    qed
  qed
  have "prerelease (incPre u p) = q \<or>
      (\<exists>i. p = Some i \<and> prerelease (incPre u p) = [Str i, Num 0])"
    by (auto simp add: incPre_def q_def Let_def split: option.splits)
  then show ?thesis
  proof
    assume "prerelease (incPre u p) = q"
    with q show ?thesis by simp
  next
    assume "\<exists>i. p = Some i \<and> prerelease (incPre u p) = [Str i, Num 0]"
    then obtain i where "p = Some i" "prerelease (incPre u p) = [Str i, Num 0]" by blast
    then show ?thesis by (simp add: identifierString_def z)
  qed
qed

lemma SemVer_inc_length:
  assumes "lvl \<in> set releaseLevels" and "SemVer_inc v0 lvl p = Inr v1"
  shows "length (format v1) \<le>
         length (format v0) + 3 + (case p of None \<Rightarrow> 0 | Some i \<Rightarrow> length i + 1)"
proof -
  note s = length_dec_Suc length_dec_zero
  from assms(1) have "lvl = ''major'' \<or> lvl = ''minor'' \<or> lvl = ''patch'' \<or>
      lvl = ''premajor'' \<or> lvl = ''preminor'' \<or> lvl = ''prerelease''"
    by (simp add: releaseLevels_def)
  then show ?thesis
  proof (elim disjE)
    assume "lvl = ''major''"
    with assms(2) have "v1 = (if minor v0 \<noteq> 0 \<or> patch v0 \<noteq> 0 \<or> prerelease v0 = []
                         then v0\<lparr>major := major v0 + 1\<rparr> else v0)
                        \<lparr>minor := 0, patch := 0, prerelease := []\<rparr>"
      by (simp add: SemVer_inc_def)
    then show ?thesis
      using s(1) [of "major v0"] s(2) [of "minor v0"] s(2) [of "patch v0"]
      by (simp add: length_format)
  next
    assume "lvl = ''minor''"
    with assms(2) have "v1 = (if patch v0 \<noteq> 0 \<or> prerelease v0 = []
                         then v0\<lparr>minor := minor v0 + 1\<rparr> else v0)
                        \<lparr>patch := 0, prerelease := []\<rparr>"
      by (simp add: SemVer_inc_def)
    then show ?thesis
      using s(1) [of "minor v0"] s(2) [of "patch v0"]
      by (simp add: length_format)
  next
    assume "lvl = ''patch''"
    with assms(2) have "v1 = incPatch v0"
      by (simp add: SemVer_inc_def)
    then show ?thesis
      using s(1) [of "patch v0"]
      by (simp add: length_format incPatch_def)
  next
    assume "lvl = ''premajor''"
    with assms(2) have "v1 = incPre (v0\<lparr>prerelease := [], patch := 0, minor := 0,
                                    major := major v0 + 1\<rparr>) p"
      by (simp add: SemVer_inc_def)
    then show ?thesis
      using s(1) [of "major v0"] s(2) [of "minor v0"] s(2) [of "patch v0"]
        incPre_length [of "v0\<lparr>prerelease := [], patch := 0, minor := 0,
                                    major := major v0 + 1\<rparr>" p]
      by (simp add: length_format main_incPre)
  next
    assume "lvl = ''preminor''"
    with assms(2) have "v1 = incPre (v0\<lparr>prerelease := [], patch := 0,
                                    minor := minor v0 + 1\<rparr>) p"
      by (simp add: SemVer_inc_def)
    then show ?thesis
      using s(1) [of "minor v0"] s(2) [of "patch v0"]
        incPre_length [of "v0\<lparr>prerelease := [], patch := 0, minor := minor v0 + 1\<rparr>" p]
      by (simp add: length_format main_incPre)
  next
    assume pre: "lvl = ''prerelease''"
    show ?thesis
    proof (cases "prerelease v0 = []")
      case True
      with pre assms(2) have "v1 = incPre (v0\<lparr>patch := patch v0 + 1\<rparr>) p"
        by (simp add: SemVer_inc_def incPatch_def)
      then show ?thesis
        using True s(1) [of "patch v0"] incPre_length [of "v0\<lparr>patch := patch v0 + 1\<rparr>" p]
        by (simp add: length_format main_incPre)
    next
      case False
      with pre assms(2) have "v1 = incPre v0 p"
        by (simp add: SemVer_inc_def)
      then show ?thesis
        using incPre_length [of v0 p]
        by (simp add: length_format main_incPre)
    qed
  qed
qed



section \<open>Properties of the version planner\<close>

lemmas semver_defs = generateNextVersion_def semver_inc_def semver_major_def semver_minor_def
  semver_prerelease_def semver_parse_def SemVer_new_def SemVer_inc_def incPre_def incPatch_def
  format_def identifierString_def matchFull_def matchNumeric_def matchTail_def matchBuild_def
  numericIdentifier_def nonNumericIdentifier_def prereleaseIdentifier_def buildIdentifier_def
  numberify_def toNumber_def digitValue_def digitChar_def isDigit_def isLetter_def
  isLetterDashNumber_def isWhiteSpace_def trim_def MAX_LENGTH_def MAX_SAFE_INTEGER_def
  isNaN_def Let_def


lemma SemVer_inc_total:
  assumes "lvl \<in> set releaseLevels"
  shows "\<exists>v1. SemVer_inc v lvl p = Inr v1"
proof -
  from assms have "lvl = ''major'' \<or> lvl = ''minor'' \<or> lvl = ''patch'' \<or>
      lvl = ''premajor'' \<or> lvl = ''preminor'' \<or> lvl = ''prerelease''"
    by (simp add: releaseLevels_def)
  then show ?thesis
    by (elim disjE) (simp_all add: SemVer_inc_def)
qed

lemma trim_format_inc:
  assumes "SemVer_new cur = Inr v0" and "SemVer_inc v0 lvl p = Inr v1"
  shows "trim (format v1) = format v1"
proof (rule trim_format)
  assume ne: "prerelease v1 \<noteq> []"
  from assms(1) have "\<forall>i \<in> set (prerelease v0). wfId i"
    using SemVer_new_wf by blast
  from SemVer_inc_shape [OF this assms(2)]
  have "wfId (last (prerelease v1))"
    using ne by (auto simp add: wfId_Num)
  then show "identifierString (last (prerelease v1)) \<noteq> [] \<and>
      \<not> isWhiteSpace (last (identifierString (last (prerelease v1))))"
    by (simp add: wfId_last)
qed

lemma semver_parse_trimmed:
  assumes "trim s = s"
  shows "semver_parse s = (case SemVer_new s of Inl e \<Rightarrow> None | Inr v \<Rightarrow> Some v)"
  using assms
  by (auto simp add: semver_parse_def SemVer_new_def split: option.splits)

lemma generateNextVersion_run:
  "generateNextVersion cur lvl p =
     (case SemVer_new cur of
        Inl e \<Rightarrow> Inl (TypeError ''Invalid Version: null'')
      | Inr v0 \<Rightarrow>
          (case SemVer_inc v0 lvl p of
             Inl e \<Rightarrow> Inl (TypeError ''Invalid Version: null'')
           | Inr v1 \<Rightarrow>
               (case SemVer_new (format v1) of
                  Inl e \<Rightarrow> Inl e
                | Inr v \<Rightarrow>
                    Inr \<lparr> version = format v1,
                          minorVer = ''v'' @ dec (major v) @ ''.'' @ dec (minor v),
                          releaseBranchName =
                            ''release-'' @ (''v'' @ dec (major v) @ ''.'' @ dec (minor v)) @
                            (case prerelease v of [] \<Rightarrow> []
                             | i # rest \<Rightarrow> ''-'' @ identifierString i) \<rparr>)))"
proof (cases "SemVer_new cur")
  case (Inl e)
  then show ?thesis by (simp add: generateNextVersion_def semver_inc_def)
next
  case new0: (Inr v0)
  show ?thesis
  proof (cases "SemVer_inc v0 lvl p")
    case (Inl e)
    with new0 show ?thesis by (simp add: generateNextVersion_def semver_inc_def)
  next
    case inc: (Inr v1)
    have t: "trim (format v1) = format v1"
      using new0 inc by (rule trim_format_inc)
    show ?thesis
    proof (cases "SemVer_new (format v1)")
      case (Inl e)
      with new0 inc show ?thesis
        by (simp add: generateNextVersion_def semver_inc_def semver_major_def)
    next
      case (Inr v)
      with new0 inc show ?thesis
        by (simp add: generateNextVersion_def semver_inc_def semver_major_def
              semver_minor_def semver_prerelease_def semver_parse_trimmed [OF t] Let_def
              split: list.splits)
    qed
  qed
qed

lemma incPre_empty: "incPre u (Some []) = incPre u None"
  by (simp add: incPre_def)

lemma SemVer_inc_empty: "SemVer_inc v lvl (Some []) = SemVer_inc v lvl None"
  by (simp add: SemVer_inc_def incPre_empty)

lemma SemVer_inc_plain:
  assumes "lvl = ''major'' \<or> lvl = ''minor'' \<or> lvl = ''patch''"
  shows "SemVer_inc v lvl p = SemVer_inc v lvl None"
  using assms by (elim disjE) (simp_all add: SemVer_inc_def)

lemma SemVer_inc_greater_preid:
  assumes new0: "SemVer_new cur = Inr v0"
    and lvl: "lvl \<in> set releaseLevels"
    and inc: "SemVer_inc v0 lvl p = Inr v1"
    and new1: "SemVer_new (format v1) = Inr v1'"
    and cond: "p = None \<or> p = Some [] \<or> lvl \<noteq> ''prerelease'' \<or> prerelease v0 = []"
  shows "SemVer_compare v1' v0 = 1"
proof -
  have m: "major v1' = major v1" "minor v1' = minor v1" "patch v1' = patch v1"
    using SemVer_new_format_main [OF trim_format_inc [OF new0 inc] new1] by simp_all
  from lvl have "lvl = ''major'' \<or> lvl = ''minor'' \<or> lvl = ''patch'' \<or>
      lvl = ''premajor'' \<or> lvl = ''preminor'' \<or> lvl = ''prerelease''"
    by (simp add: releaseLevels_def)
  then show ?thesis
  proof (elim disjE)
    assume "lvl = ''major''"
    then have "SemVer_inc v0 lvl None = Inr v1"
      using inc SemVer_inc_plain [of lvl v0 p] by simp
    then show ?thesis
      by (rule SemVer_inc_greater [OF new0 lvl _ new1])
  next
    assume "lvl = ''minor''"
    then have "SemVer_inc v0 lvl None = Inr v1"
      using inc SemVer_inc_plain [of lvl v0 p] by simp
    then show ?thesis
      by (rule SemVer_inc_greater [OF new0 lvl _ new1])
  next
    assume "lvl = ''patch''"
    then have "SemVer_inc v0 lvl None = Inr v1"
      using inc SemVer_inc_plain [of lvl v0 p] by simp
    then show ?thesis
      by (rule SemVer_inc_greater [OF new0 lvl _ new1])
  next
    assume "lvl = ''premajor''"
    with inc have "v1 = incPre (v0\<lparr>prerelease := [], patch := 0, minor := 0,
                                    major := major v0 + 1\<rparr>) p"
      by (simp add: SemVer_inc_def)
    then show ?thesis
      by (simp add: SemVer_compare_def compareMain_def compareIdentifiers_Num m main_incPre
            Let_def)
  next
    assume "lvl = ''preminor''"
    with inc have "v1 = incPre (v0\<lparr>prerelease := [], patch := 0,
                                    minor := minor v0 + 1\<rparr>) p"
      by (simp add: SemVer_inc_def)
    then show ?thesis
      by (simp add: SemVer_compare_def compareMain_def compareIdentifiers_Num m main_incPre
            Let_def)
  next
    assume pre: "lvl = ''prerelease''"
    show ?thesis
    proof (cases "prerelease v0 = []")
      case True
      with pre inc have "v1 = incPre (incPatch v0) p"
        by (simp add: SemVer_inc_def)
      with True show ?thesis
        by (simp add: incPatch_def SemVer_compare_def compareMain_def
              compareIdentifiers_Num m main_incPre Let_def)
    next
      case False
      with pre cond have "p = None \<or> p = Some []" by simp
      then have "SemVer_inc v0 lvl None = Inr v1"
        using inc SemVer_inc_empty by auto
      then show ?thesis
        by (rule SemVer_inc_greater [OF new0 lvl _ new1])
    qed
  qed
qed

lemma planner_returns:
  assumes new0: "SemVer_new cur = Inr v0" and lvl: "lvl \<in> set releaseLevels"
    and p: "case p of None \<Rightarrow> True | Some i \<Rightarrow> i = [] \<or> prereleaseIdentifier i"
    and main: "major v0 < MAX_SAFE_INTEGER" "minor v0 < MAX_SAFE_INTEGER"
      "patch v0 < MAX_SAFE_INTEGER"
    and len: "length cur + (case p of None \<Rightarrow> 3 | Some i \<Rightarrow> length i + 4) \<le> MAX_LENGTH"
  shows "\<exists>r. generateNextVersion cur lvl p = Inr r"
proof -
  from lvl obtain v1 where inc: "SemVer_inc v0 lvl p = Inr v1"
    using SemVer_inc_total by blast
  note parts = SemVer_new_parts [OF new0]
  have ok: "\<forall>i \<in> set (prerelease v1). prereleaseIdentifier (identifierString i)"
    using parts(1) p inc by (rule SemVer_inc_pre)
  have "length (format v1) \<le>
      length cur + 3 + (case p of None \<Rightarrow> 0 | Some i \<Rightarrow> length i + 1)"
    using SemVer_inc_length [OF lvl inc] parts(2) by simp
  also have "\<dots> = length cur + (case p of None \<Rightarrow> 3 | Some i \<Rightarrow> length i + 4)"
    by (cases p) simp_all
  finally have l: "length (format v1) \<le> MAX_LENGTH"
    using len by simp
  have m: "major v1 \<le> MAX_SAFE_INTEGER" "minor v1 \<le> MAX_SAFE_INTEGER"
      "patch v1 \<le> MAX_SAFE_INTEGER"
    using SemVer_inc_main [OF inc] main by simp_all
  from SemVer_new_accepts [OF ok l m] obtain v1' where "SemVer_new (format v1) = Inr v1'"
    by blast
  with new0 inc show ?thesis
    by (simp add: generateNextVersion_run)
qed

text \<open>
  Claim C2. Whenever the planner returns, its \<^verbatim>\<open>version\<close> is what \<^verbatim>\<open>semver.inc\<close>
  computed, \<^verbatim>\<open>minorVer\<close> is \<^verbatim>\<open>v{major}.{minor}\<close> of that version, and
  \<^verbatim>\<open>releaseBranchName\<close> is \<^verbatim>\<open>release-{minorVer}\<close>, followed by \<^verbatim>\<open>-\<close> and the first
  prerelease identifier exactly when that version has a prerelease component. For a
  valid current version and a level of the contract, \<^verbatim>\<open>semver.inc\<close> yields a next
  version string, and the planner returns it unless semver itself rejects that string
  (a number beyond \<open>2^53 - 1\<close>, more than 256 characters, an identifier that is no
  identifier), in which case the planner throws semver's error. From 1.2.3 at level
  minor the planner yields 1.3.0, v1.3 and release-v1.3; from 1.3.0 at level prerelease
  with identifier beta it yields 1.3.1-beta.0, whose prerelease component is
  \<open>[beta, 0]\<close>, and the branch release-v1.3-beta.
\<close>

theorem planner_names:
  "(generateNextVersion cur lvl p = Inr r \<longrightarrow>
      semver_inc cur lvl p = Some (version r) \<and>
      (\<exists>v. SemVer_new (version r) = Inr v \<and>
         minorVer r = ''v'' @ dec (major v) @ ''.'' @ dec (minor v) \<and>
         releaseBranchName r =
           ''release-'' @ minorVer r @
           (case prerelease v of [] \<Rightarrow> [] | i # rest \<Rightarrow> ''-'' @ identifierString i))) \<and>
   (SemVer_new cur = Inr v0 \<and> lvl \<in> set releaseLevels \<longrightarrow>
      (\<exists>next. semver_inc cur lvl p = Some next \<and>
         (case generateNextVersion cur lvl p of
            Inr r \<Rightarrow> version r = next
          | Inl e \<Rightarrow> SemVer_new next = Inl e))) \<and>
   generateNextVersion ''1.2.3'' ''minor'' None =
     Inr \<lparr>version = ''1.3.0'', minorVer = ''v1.3'', releaseBranchName = ''release-v1.3''\<rparr> \<and>
   generateNextVersion ''1.3.0'' ''prerelease'' (Some ''beta'') =
     Inr \<lparr>version = ''1.3.1-beta.0'', minorVer = ''v1.3'',
           releaseBranchName = ''release-v1.3-beta''\<rparr> \<and>
   semver_prerelease ''1.3.1-beta.0'' = Some [Str ''beta'', Num 0]"
proof -
  have names: "semver_inc cur lvl p = Some (version r) \<and>
      (\<exists>v. SemVer_new (version r) = Inr v \<and>
         minorVer r = ''v'' @ dec (major v) @ ''.'' @ dec (minor v) \<and>
         releaseBranchName r =
           ''release-'' @ minorVer r @
           (case prerelease v of [] \<Rightarrow> [] | i # rest \<Rightarrow> ''-'' @ identifierString i))"
    if "generateNextVersion cur lvl p = Inr r"
    using that
    by (auto simp add: generateNextVersion_run semver_inc_def split: sum.splits)
  have total: "\<exists>next. semver_inc cur lvl p = Some next \<and>
         (case generateNextVersion cur lvl p of
            Inr r \<Rightarrow> version r = next
          | Inl e \<Rightarrow> SemVer_new next = Inl e)"
    if "SemVer_new cur = Inr v0" and "lvl \<in> set releaseLevels"
  proof -
    from that(2) obtain v1 where "SemVer_inc v0 lvl p = Inr v1"
      using SemVer_inc_total by blast
    with that(1) show ?thesis
      by (simp add: generateNextVersion_run semver_inc_def split: sum.splits)
  qed
  have e1: "generateNextVersion ''1.2.3'' ''minor'' None =
     Inr \<lparr>version = ''1.3.0'', minorVer = ''v1.3'', releaseBranchName = ''release-v1.3''\<rparr>"
    by (simp add: semver_defs dec.simps)
  have e2: "generateNextVersion ''1.3.0'' ''prerelease'' (Some ''beta'') =
     Inr \<lparr>version = ''1.3.1-beta.0'', minorVer = ''v1.3'',
           releaseBranchName = ''release-v1.3-beta''\<rparr>"
    by (simp add: semver_defs dec.simps)
  have e3: "semver_prerelease ''1.3.1-beta.0'' = Some [Str ''beta'', Num 0]"
    by (simp add: semver_defs)
  show ?thesis
    using names total e1 e2 e3 by blast
qed

theorem planner_names_witness:
  "generateNextVersion ''2.0.0-rc.1'' ''prerelease'' None =
     Inr \<lparr>version = ''2.0.0-rc.2'', minorVer = ''v2.0'', releaseBranchName = ''release-v2.0-rc''\<rparr> \<and>
   semver_inc ''2.0.0-rc.1'' ''prerelease'' None = Some ''2.0.0-rc.2'' \<and>
   SemVer_new ''2.0.0-rc.2'' =
     Inr \<lparr>major = 2, minor = 0, patch = 0, prerelease = [Str ''rc'', Num 2], build = []\<rparr> \<and>
   SemVer_new ''9007199254740991.0.0'' =
     Inr \<lparr>major = 9007199254740991, minor = 0, patch = 0, prerelease = [], build = []\<rparr> \<and>
   ''major'' \<in> set releaseLevels \<and>
   semver_inc ''9007199254740991.0.0'' ''major'' None = Some ''9007199254740992.0.0'' \<and>
   generateNextVersion ''9007199254740991.0.0'' ''major'' None =
     Inl (TypeError ''Invalid major version'') \<and>
   SemVer_new ''9007199254740992.0.0'' = Inl (TypeError ''Invalid major version'')"
proof -
  let ?r = "\<lparr>version = ''2.0.0-rc.2'', minorVer = ''v2.0'', releaseBranchName = ''release-v2.0-rc''\<rparr>"
  let ?v0 = "\<lparr>major = 9007199254740991, minor = 0, patch = 0, prerelease = [], build = []\<rparr>"
  have g: "generateNextVersion ''2.0.0-rc.1'' ''prerelease'' None = Inr ?r"
    by (simp add: semver_defs dec.simps)
  have n: "SemVer_new ''2.0.0-rc.2'' =
     Inr \<lparr>major = 2, minor = 0, patch = 0, prerelease = [Str ''rc'', Num 2], build = []\<rparr>"
    by (simp add: semver_defs)
  have big: "SemVer_new ''9007199254740991.0.0'' = Inr ?v0"
    by (simp add: semver_defs)
  have lvl: "''major'' \<in> set releaseLevels"
    by (simp add: releaseLevels_def)
  have over: "generateNextVersion ''9007199254740991.0.0'' ''major'' None =
     Inl (TypeError ''Invalid major version'')"
    by (simp add: semver_defs dec.simps)
  have inc: "semver_inc ''9007199254740991.0.0'' ''major'' None = Some ''9007199254740992.0.0''"
    by (simp add: semver_defs dec.simps)
  have i: "semver_inc ''2.0.0-rc.1'' ''prerelease'' None = Some ''2.0.0-rc.2''"
    using planner_names [of "''2.0.0-rc.1''" "''prerelease''" None ?r, THEN conjunct1] g
    by simp
  have "\<exists>next. semver_inc ''9007199254740991.0.0'' ''major'' None = Some next \<and>
         (case generateNextVersion ''9007199254740991.0.0'' ''major'' None of
            Inr r \<Rightarrow> version r = next
          | Inl e \<Rightarrow> SemVer_new next = Inl e)"
    using planner_names [of "''9007199254740991.0.0''" "''major''" None ?r ?v0,
        THEN conjunct2, THEN conjunct1] big lvl
    by blast
  then have rejected:
    "SemVer_new ''9007199254740992.0.0'' = Inl (TypeError ''Invalid major version'')"
    by (simp add: inc over)
  from g i n big lvl inc over rejected show ?thesis by simp
qed

text \<open>
  The next version is not always above the current one. At level prerelease, a version
  that has a prerelease component and is given a prerelease identifier gets
  \<open>[identifier, 0]\<close> in place of that component, which can sort lower: from
  1.2.3-beta.1 with the identifier alpha the planner yields 1.2.3-alpha.0. And a valid
  pair may have no next version at all: at major \<open>2^53 - 1\<close> the planner throws.
\<close>

theorem preid_can_lower_version:
  "SemVer_new ''1.2.3-beta.1'' =
     Inr \<lparr>major = 1, minor = 2, patch = 3, prerelease = [Str ''beta'', Num 1], build = []\<rparr> \<and>
   ''prerelease'' \<in> set releaseLevels \<and>
   generateNextVersion ''1.2.3-beta.1'' ''prerelease'' (Some ''alpha'') =
     Inr \<lparr>version = ''1.2.3-alpha.0'', minorVer = ''v1.2'',
           releaseBranchName = ''release-v1.2-alpha''\<rparr> \<and>
   semver_gt ''1.2.3-alpha.0'' ''1.2.3-beta.1'' = Inr False \<and>
   semver_gt ''1.2.3-beta.1'' ''1.2.3-alpha.0'' = Inr True \<and>
   SemVer_new ''9007199254740991.0.0'' =
     Inr \<lparr>major = 9007199254740991, minor = 0, patch = 0, prerelease = [], build = []\<rparr> \<and>
   ''major'' \<in> set releaseLevels \<and>
   generateNextVersion ''9007199254740991.0.0'' ''major'' None =
     Inl (TypeError ''Invalid major version'')"
  by (simp add: semver_defs dec.simps semver_gt_def SemVer_compare_def compareMain_def
        comparePre_def compareIdentifiers_def isNumeric_def numberOf_def isDigits_def
        releaseLevels_def)

text \<open>
  Claim C3, as the code has it. For a valid current version and a level among major,
  minor, patch, premajor, preminor and prerelease, with or without a prerelease
  identifier, \<^verbatim>\<open>semver.inc\<close> yields a next version string. When the planner returns,
  that string is its \<^verbatim>\<open>version\<close>, and \<^verbatim>\<open>semver.gt\<close> puts it strictly above the
  current version provided that no identifier is given (or an empty one), or the level
  is not prerelease, or the current version has no prerelease component. When the
  planner throws, it is because semver rejects the next version string. The planner
  does return when the identifier, if any, is empty or a prerelease identifier, the
  three numbers of the current version are below \<open>2^53 - 1\<close>, and the current version
  string leaves room for the increment: three more characters, and the identifier and
  one more when an identifier is given, within the 256 that semver reads.
\<close>

theorem next_version_greater:
  assumes "SemVer_new cur = Inr v0" and "lvl \<in> set releaseLevels"
  shows "\<exists>next. semver_inc cur lvl p = Some next \<and>
           (case generateNextVersion cur lvl p of
              Inr r \<Rightarrow> version r = next \<and>
                (p = None \<or> p = Some [] \<or> lvl \<noteq> ''prerelease'' \<or> prerelease v0 = [] \<longrightarrow>
                   semver_gt next cur = Inr True)
            | Inl e \<Rightarrow> SemVer_new next = Inl e) \<and>
           ((case p of None \<Rightarrow> True | Some i \<Rightarrow> i = [] \<or> prereleaseIdentifier i) \<and>
            major v0 < MAX_SAFE_INTEGER \<and> minor v0 < MAX_SAFE_INTEGER \<and>
            patch v0 < MAX_SAFE_INTEGER \<and>
            length cur + (case p of None \<Rightarrow> 3 | Some i \<Rightarrow> length i + 4) \<le> MAX_LENGTH \<longrightarrow>
            (\<exists>r. generateNextVersion cur lvl p = Inr r))"
proof -
  from assms(2) obtain v1 where inc: "SemVer_inc v0 lvl p = Inr v1"
    using SemVer_inc_total by blast
  have returns: "\<exists>r. generateNextVersion cur lvl p = Inr r"
    if "case p of None \<Rightarrow> True | Some i \<Rightarrow> i = [] \<or> prereleaseIdentifier i"
      and "major v0 < MAX_SAFE_INTEGER" and "minor v0 < MAX_SAFE_INTEGER"
      and "patch v0 < MAX_SAFE_INTEGER"
      and "length cur + (case p of None \<Rightarrow> 3 | Some i \<Rightarrow> length i + 4) \<le> MAX_LENGTH"
    using assms that by (rule planner_returns)
  have "case generateNextVersion cur lvl p of
          Inr r \<Rightarrow> version r = format v1 \<and>
            (p = None \<or> p = Some [] \<or> lvl \<noteq> ''prerelease'' \<or> prerelease v0 = [] \<longrightarrow>
               semver_gt (format v1) cur = Inr True)
        | Inl e \<Rightarrow> SemVer_new (format v1) = Inl e"
  proof (cases "SemVer_new (format v1)")
    case (Inl e)
    with assms(1) inc show ?thesis
      by (simp add: generateNextVersion_run)
  next
    case (Inr v1')
    have "semver_gt (format v1) cur = Inr True"
      if "p = None \<or> p = Some [] \<or> lvl \<noteq> ''prerelease'' \<or> prerelease v0 = []"
      using SemVer_inc_greater_preid [OF assms inc Inr that] assms(1) Inr
      by (simp add: semver_gt_def)
    with assms(1) inc Inr show ?thesis
      by (simp add: generateNextVersion_run)
  qed
  moreover have "semver_inc cur lvl p = Some (format v1)"
    using assms(1) inc by (simp add: semver_inc_def)
  ultimately show ?thesis
    using returns by blast
qed

theorem next_version_greater_witness:
  "SemVer_new ''1.2.3-rc.9'' =
     Inr \<lparr>major = 1, minor = 2, patch = 3, prerelease = [Str ''rc'', Num 9], build = []\<rparr> \<and>
   ''prerelease'' \<in> set releaseLevels \<and>
   generateNextVersion ''1.2.3-rc.9'' ''prerelease'' None =
     Inr \<lparr>version = ''1.2.3-rc.10'', minorVer = ''v1.2'', releaseBranchName = ''release-v1.2-rc''\<rparr> \<and>
   semver_gt ''1.2.3-rc.10'' ''1.2.3-rc.9'' = Inr True \<and>
   SemVer_new ''1.2.3'' =
     Inr \<lparr>major = 1, minor = 2, patch = 3, prerelease = [], build = []\<rparr> \<and>
   ''premajor'' \<in> set releaseLevels \<and>
   prereleaseIdentifier ''beta'' \<and>
   (1 :: nat) < MAX_SAFE_INTEGER \<and> (2 :: nat) < MAX_SAFE_INTEGER \<and>
   (3 :: nat) < MAX_SAFE_INTEGER \<and>
   length ''1.2.3'' + (length ''beta'' + 4) \<le> MAX_LENGTH \<and>
   (\<exists>r. generateNextVersion ''1.2.3'' ''premajor'' (Some ''beta'') = Inr r \<and>
        version r = ''2.0.0-beta.0'' \<and> semver_gt (version r) ''1.2.3'' = Inr True)"
proof -
  let ?v0 = "\<lparr>major = 1, minor = 2, patch = 3, prerelease = [Str ''rc'', Num 9], build = []\<rparr>"
  let ?u0 = "\<lparr>major = 1, minor = 2, patch = 3, prerelease = [], build = []\<rparr>"
  have new: "SemVer_new ''1.2.3-rc.9'' = Inr ?v0"
    by (simp add: semver_defs)
  have lvl: "''prerelease'' \<in> set releaseLevels"
    by (simp add: releaseLevels_def)
  have g: "generateNextVersion ''1.2.3-rc.9'' ''prerelease'' None =
     Inr \<lparr>version = ''1.2.3-rc.10'', minorVer = ''v1.2'', releaseBranchName = ''release-v1.2-rc''\<rparr>"
    by (simp add: semver_defs dec.simps)
  have gt: "semver_gt ''1.2.3-rc.10'' ''1.2.3-rc.9'' = Inr True"
    using next_version_greater [OF new lvl, of None] by (simp add: g)
  have new2: "SemVer_new ''1.2.3'' = Inr ?u0"
    by (simp add: semver_defs)
  have lvl2: "''premajor'' \<in> set releaseLevels"
    by (simp add: releaseLevels_def)
  have beta: "prereleaseIdentifier ''beta''"
    by (simp add: semver_defs)
  have small: "(1 :: nat) < MAX_SAFE_INTEGER" "(2 :: nat) < MAX_SAFE_INTEGER"
    "(3 :: nat) < MAX_SAFE_INTEGER"
    by (simp_all add: MAX_SAFE_INTEGER_def)
  have room: "length ''1.2.3'' + (length ''beta'' + 4) \<le> MAX_LENGTH"
    by (simp add: MAX_LENGTH_def)
  note planned = next_version_greater [OF new2 lvl2, of "Some ''beta''"]
  have "\<exists>r. generateNextVersion ''1.2.3'' ''premajor'' (Some ''beta'') = Inr r"
    using planned beta small room by auto
  then obtain r where r: "generateNextVersion ''1.2.3'' ''premajor'' (Some ''beta'') = Inr r" ..
  have inc: "semver_inc ''1.2.3'' ''premajor'' (Some ''beta'') = Some ''2.0.0-beta.0''"
    by (simp add: semver_defs dec.simps)
  have "version r = ''2.0.0-beta.0'' \<and> semver_gt (version r) ''1.2.3'' = Inr True"
    using planned by (auto simp add: r inc)
  with r have ex: "\<exists>r. generateNextVersion ''1.2.3'' ''premajor'' (Some ''beta'') = Inr r \<and>
        version r = ''2.0.0-beta.0'' \<and> semver_gt (version r) ''1.2.3'' = Inr True"
    by blast
  show ?thesis
    using new lvl g gt new2 lvl2 beta small room ex by simp
qed


section \<open>The two workflows\<close>

text \<open>Concrete versions are planned by unfolding the definitions.\<close>

lemma planner_2_4_0:
  "generateNextVersion ''2.4.0'' ''minor'' p =
     Inr \<lparr>version = ''2.5.0'', minorVer = ''v2.5'', releaseBranchName = ''release-v2.5''\<rparr>"
  by (simp add: semver_defs dec.simps)

lemma planner_2_4_0_patch:
  "generateNextVersion ''2.4.0'' ''patch'' p =
     Inr \<lparr>version = ''2.4.1'', minorVer = ''v2.4'', releaseBranchName = ''release-v2.4''\<rparr>"
  by (simp add: semver_defs dec.simps)

lemmas example_simps = run_simps planner_2_4_0 startsWith_def manifestPath_def return_def
  reviewLines_def rangeOf_def confirm_def cutRefs_def exampleWorld_def cutArgs_def

text \<open>
  Claim C6. For a remote whose URL does not start with \<^verbatim>\<open>git\<close> (https-like), when the
  credential helper reports unavailable, credential resolution fails with the helper
  error, both workflows end with that error, and their traces hold no clone and no push.
  In every run of either workflow, a clone or push only occurs after credential
  resolution has returned: the trace starts with opening the repository, looking up the
  remote, and the whole of \<^verbatim>\<open>getCreds\<close>, none of which is a clone or a push.
\<close>

theorem credentials_before_network:
  "(repositoryOpen w ''.'' = Inr () \<and> getRemote w ''.'' (upstream a) = Inr url \<and>
    \<not> startsWith url ''git'' \<and> \<not> available w \<longrightarrow>
      fst (getCreds w url s) = Inl CredentialHelperUnavailable \<and>
      fst (cutReleaseBranch w a start) = Inl CredentialHelperUnavailable \<and>
      (\<forall>e \<in> set (trace (snd (cutReleaseBranch w a start))). \<not> isNetwork e) \<and>
      fst (tagVersion w a start) = Inl CredentialHelperUnavailable \<and>
      (\<forall>e \<in> set (trace (snd (tagVersion w a start))). \<not> isNetwork e)) \<and>
   (\<forall>run \<in> {cutReleaseBranch w a start, tagVersion w a start}.
      (\<exists>e \<in> set (trace (snd run)). isNetwork e) \<longrightarrow>
      (\<exists>u creds rest.
         getRemote w ''.'' (upstream a) = Inr u \<and> fst (getCreds w u start) = Inr creds \<and>
         trace (snd run) =
           [RepositoryOpen ''.'', GetRemote ''.'' (upstream a)] @
           trace (snd (getCreds w u start)) @ rest \<and>
         (\<forall>e \<in> set (trace (snd (getCreds w u start))). \<not> isNetwork e)))"
proof -
  define Q where "Q = (\<lambda>z :: (error + string) \<times> state.
     (repositoryOpen w ''.'' = Inr () \<and> getRemote w ''.'' (upstream a) = Inr url \<and>
      \<not> startsWith url ''git'' \<and> \<not> available w \<longrightarrow>
        fst z = Inl CredentialHelperUnavailable \<and> (\<forall>e \<in> set (trace (snd z)). \<not> isNetwork e)))"
  define R where "R = (\<lambda>z :: (error + string) \<times> state.
     (\<exists>e \<in> set (trace (snd z)). isNetwork e) \<longrightarrow>
      (\<exists>u creds rest.
         getRemote w ''.'' (upstream a) = Inr u \<and> fst (getCreds w u start) = Inr creds \<and>
         trace (snd z) =
           [RepositoryOpen ''.'', GetRemote ''.'' (upstream a)] @
           trace (snd (getCreds w u start)) @ rest \<and>
         (\<forall>e \<in> set (trace (snd (getCreds w u start))). \<not> isNetwork e)))"
  have c1: "Q (cutReleaseBranch w a start)"
    unfolding cutReleaseBranch_def start_def
    by (intro wp [where Q = Q]) (auto simp add: Q_def isNetwork_def isClone_def isPush_def)
  have t1: "Q (tagVersion w a start)"
    unfolding tagVersion_def start_def
    by (intro wp [where Q = Q]) (auto simp add: Q_def isNetwork_def isClone_def isPush_def)
  have c2: "R (cutReleaseBranch w a start)"
    unfolding cutReleaseBranch_def start_def
    by (intro wp [where Q = R])
       (auto simp add: R_def isNetwork_def isClone_def isPush_def reviewLines_def getCreds_run
          start_def)
  have t2: "R (tagVersion w a start)"
    unfolding tagVersion_def start_def
    by (intro wp [where Q = R])
       (auto simp add: R_def isNetwork_def isClone_def isPush_def reviewLines_def getCreds_run
          start_def)
  have g: "\<not> startsWith url ''git'' \<and> \<not> available w \<longrightarrow>
      fst (getCreds w url s) = Inl CredentialHelperUnavailable"
    by (simp add: getCreds_run)
  show ?thesis
    using c1 t1 c2 t2 g unfolding Q_def R_def by simp
qed

theorem credentials_before_network_witness:
  "repositoryOpen (exampleWorld\<lparr>getRemote := (\<lambda>repo name. Inr ''https://host/repo.git''),
       available := False\<rparr>) ''.'' = Inr () \<and>
   \<not> startsWith ''https://host/repo.git'' ''git'' \<and>
   fst (cutReleaseBranch (exampleWorld\<lparr>getRemote := (\<lambda>repo name. Inr ''https://host/repo.git''),
       available := False\<rparr>) cutArgs start) = Inl CredentialHelperUnavailable \<and>
   fst (tagVersion (exampleWorld\<lparr>getRemote := (\<lambda>repo name. Inr ''https://host/repo.git''),
       available := False\<rparr>) cutArgs start) = Inl CredentialHelperUnavailable \<and>
   (\<exists>e \<in> set (trace (snd (cutReleaseBranch exampleWorld cutArgs start))). isNetwork e) \<and>
   (\<exists>rest. trace (snd (cutReleaseBranch exampleWorld cutArgs start)) =
      [RepositoryOpen ''.'', GetRemote ''.'' ''origin'', GchAvailable] @ rest)"
proof -
  let ?w = "exampleWorld\<lparr>getRemote := (\<lambda>repo name. Inr ''https://host/repo.git''),
       available := False\<rparr>"
  have pre: "repositoryOpen ?w ''.'' = Inr () \<and>
      getRemote ?w ''.'' (upstream cutArgs) = Inr ''https://host/repo.git'' \<and>
      \<not> startsWith ''https://host/repo.git'' ''git'' \<and> \<not> available ?w"
    by (simp add: exampleWorld_def startsWith_def)
  note unavailable =
    credentials_before_network
      [of ?w cutArgs "''https://host/repo.git''" start, THEN conjunct1, THEN mp, OF pre]
  have net: "\<exists>e \<in> set (trace (snd (cutReleaseBranch exampleWorld cutArgs start))). isNetwork e"
    unfolding cutReleaseBranch_def start_def
    by (simp add: example_simps isNetwork_def isClone_def isPush_def)
  have gc: "getCreds exampleWorld ''git@host:repo.git'' start =
      (Inr None, \<lparr>trace = [GchAvailable], scratch = []\<rparr>)"
    by (simp add: getCreds_run startsWith_def start_def)
  have gr: "getRemote exampleWorld ''.'' (upstream cutArgs) = Inr ''git@host:repo.git''"
    by (simp add: exampleWorld_def)
  have "\<exists>u creds rest.
         getRemote exampleWorld ''.'' (upstream cutArgs) = Inr u \<and>
         fst (getCreds exampleWorld u start) = Inr creds \<and>
         trace (snd (cutReleaseBranch exampleWorld cutArgs start)) =
           [RepositoryOpen ''.'', GetRemote ''.'' (upstream cutArgs)] @
           trace (snd (getCreds exampleWorld u start)) @ rest \<and>
         (\<forall>e \<in> set (trace (snd (getCreds exampleWorld u start))). \<not> isNetwork e)"
    using credentials_before_network
      [of exampleWorld cutArgs "''https://host/repo.git''" start, THEN conjunct2] net
    by blast
  then obtain rest where
    "trace (snd (cutReleaseBranch exampleWorld cutArgs start)) =
       [RepositoryOpen ''.'', GetRemote ''.'' (upstream cutArgs)] @
       trace (snd (getCreds exampleWorld ''git@host:repo.git'' start)) @ rest"
    using gr by auto
  then have ordered: "\<exists>rest. trace (snd (cutReleaseBranch exampleWorld cutArgs start)) =
      [RepositoryOpen ''.'', GetRemote ''.'' ''origin'', GchAvailable] @ rest"
    by (simp add: gc cutArgs_def)
  show ?thesis
    using pre unavailable net ordered by simp
qed

text \<open>
  A review that is turned down, or left unanswered, does not always end in the "aborted"
  message: the cut workflow runs the version bump between the review and the test of its
  answer, and a bump that fails is what the run reports.
\<close>

theorem cut_rejection_surfaces_bump_failure:
  "confirm False (answer (exampleWorld\<lparr>answer := None,
       execSync := (\<lambda>cmd dir. Inl (Error ''npm ERR! Git working directory not clean.''))\<rparr>)) = False \<and>
   Prompt ''Does the commit log look good?'' False \<in>
     set (trace (snd (cutReleaseBranch (exampleWorld\<lparr>answer := None,
       execSync := (\<lambda>cmd dir. Inl (Error ''npm ERR! Git working directory not clean.''))\<rparr>)
       cutArgs start))) \<and>
   fst (cutReleaseBranch (exampleWorld\<lparr>answer := None,
       execSync := (\<lambda>cmd dir. Inl (Error ''npm ERR! Git working directory not clean.''))\<rparr>)
       cutArgs start) = Inl (Error ''npm ERR! Git working directory not clean.'')"
  unfolding cutReleaseBranch_def start_def
  by (simp add: example_simps)

text \<open>
  Claim C7, as the code has it. Without an explicit confirmation the answer is
  \<open>False\<close>. After a \<open>False\<close> answer neither workflow pushes. The tag workflow then ends
  with its "Aborted push!" message. The cut workflow ends with its "Aborted branch cut!"
  message when the version bump that runs after the review succeeds, and with the bump's
  error when it fails. The refusal itself is never reported as an error.
\<close>

theorem rejection_aborts_without_push:
  "confirm False None = False \<and>
   (\<not> confirm False (answer w) \<longrightarrow>
      (\<forall>e \<in> set (trace (snd (cutReleaseBranch w a start))). \<not> isPush e) \<and>
      (\<forall>e \<in> set (trace (snd (tagVersion w a start))). \<not> isPush e) \<and>
      (Prompt ''Does the commit log look good?'' False \<in> set (trace (snd (tagVersion w a start))) \<longrightarrow>
         fst (tagVersion w a start) =
           Inr ''Aborted push! Local changes not reverted, you must now do surgery!'') \<and>
      (\<forall>d. dirSync w = Inr d \<longrightarrow>
         Prompt ''Does the commit log look good?'' False
           \<in> set (trace (snd (cutReleaseBranch w a start))) \<longrightarrow>
         fst (cutReleaseBranch w a start) =
           (case execSync w (npmVersion (level a)) (Some d) of
              Inl e \<Rightarrow> Inl e
            | Inr u \<Rightarrow> Inr ''Aborted branch cut! Phew, that was a close one...'')))"
proof -
  define Q where "Q = (\<lambda>z :: (error + string) \<times> state.
     \<not> confirm False (answer w) \<longrightarrow>
      (\<forall>e \<in> set (trace (snd z)). \<not> isPush e) \<and>
      (\<forall>d. dirSync w = Inr d \<longrightarrow>
         Prompt ''Does the commit log look good?'' False \<in> set (trace (snd z)) \<longrightarrow>
         fst z =
           (case execSync w (npmVersion (level a)) (Some d) of
              Inl e \<Rightarrow> Inl e
            | Inr u \<Rightarrow> Inr ''Aborted branch cut! Phew, that was a close one...'')))"
  define R where "R = (\<lambda>z :: (error + string) \<times> state.
     \<not> confirm False (answer w) \<longrightarrow>
      (\<forall>e \<in> set (trace (snd z)). \<not> isPush e) \<and>
      (Prompt ''Does the commit log look good?'' False \<in> set (trace (snd z)) \<longrightarrow>
         fst z = Inr ''Aborted push! Local changes not reverted, you must now do surgery!''))"
  have c: "Q (cutReleaseBranch w a start)"
    unfolding cutReleaseBranch_def start_def
    by (intro wp [where Q = Q]) (auto simp add: Q_def isPush_def reviewLines_def)
  have t: "R (tagVersion w a start)"
    unfolding tagVersion_def start_def
    by (intro wp [where Q = R]) (auto simp add: R_def isPush_def reviewLines_def)
  show ?thesis
    using c t unfolding Q_def R_def by (simp add: confirm_def)
qed

theorem rejection_aborts_without_push_witness:
  "\<not> confirm False (answer (exampleWorld\<lparr>answer := None\<rparr>)) \<and>
   dirSync (exampleWorld\<lparr>answer := None\<rparr>) = Inr ''/tmp/tmp-1'' \<and>
   Prompt ''Does the commit log look good?'' False
     \<in> set (trace (snd (cutReleaseBranch (exampleWorld\<lparr>answer := None\<rparr>) cutArgs start))) \<and>
   Prompt ''Does the commit log look good?'' False
     \<in> set (trace (snd (tagVersion (exampleWorld\<lparr>answer := None\<rparr>) cutArgs start))) \<and>
   fst (cutReleaseBranch (exampleWorld\<lparr>answer := None\<rparr>) cutArgs start) =
     Inr ''Aborted branch cut! Phew, that was a close one...'' \<and>
   fst (tagVersion (exampleWorld\<lparr>answer := None\<rparr>) cutArgs start) =
     Inr ''Aborted push! Local changes not reverted, you must now do surgery!'' \<and>
   filter isPush (trace (snd (cutReleaseBranch (exampleWorld\<lparr>answer := None\<rparr>) cutArgs start))) =
     []"
proof -
  let ?w = "exampleWorld\<lparr>answer := None\<rparr>"
  have no: "\<not> confirm False (answer ?w)"
    by (simp add: confirm_def exampleWorld_def)
  have d: "dirSync ?w = Inr ''/tmp/tmp-1''"
    by (simp add: exampleWorld_def)
  have x: "execSync ?w (npmVersion (level cutArgs)) (Some ''/tmp/tmp-1'') = Inr ()"
    by (simp add: exampleWorld_def)
  have planTag: "generateNextVersion ''2.4.0'' ''patch'' None =
      Inr \<lparr>version = ''2.4.1'', minorVer = ''v2.4'', releaseBranchName = ''release-v2.4''\<rparr>"
    by (simp add: semver_defs dec.simps)
  have pc: "Prompt ''Does the commit log look good?'' False
     \<in> set (trace (snd (cutReleaseBranch ?w cutArgs start)))"
    unfolding cutReleaseBranch_def start_def by (simp add: example_simps)
  have pt: "Prompt ''Does the commit log look good?'' False
     \<in> set (trace (snd (tagVersion ?w cutArgs start)))"
    unfolding tagVersion_def start_def by (simp add: example_simps planTag)
  note r = rejection_aborts_without_push [of ?w cutArgs, THEN conjunct2, THEN mp, OF no]
  from r pt have tagOut: "fst (tagVersion ?w cutArgs start) =
     Inr ''Aborted push! Local changes not reverted, you must now do surgery!''"
    by blast
  from r d pc have "fst (cutReleaseBranch ?w cutArgs start) =
           (case execSync ?w (npmVersion (level cutArgs)) (Some ''/tmp/tmp-1'') of
              Inl e \<Rightarrow> Inl e
            | Inr u \<Rightarrow> Inr ''Aborted branch cut! Phew, that was a close one...'')"
    by blast
  then have cutOut: "fst (cutReleaseBranch ?w cutArgs start) =
     Inr ''Aborted branch cut! Phew, that was a close one...''"
    using x by simp
  from r have "\<forall>e \<in> set (trace (snd (cutReleaseBranch ?w cutArgs start))). \<not> isPush e"
    by blast
  then have np: "filter isPush (trace (snd (cutReleaseBranch ?w cutArgs start))) = []"
    by (simp add: filter_empty_conv)
  show ?thesis
    using no d pc pt cutOut tagOut np by simp
qed

text \<open>
  The remote may refuse one ref of the three while the call as a whole resolves; the cut
  workflow then reports success.
\<close>

theorem cut_done_despite_refused_ref:
  "push (exampleWorld\<lparr>push := (\<lambda>repo remote refspecs opts. Inr [refspecs ! 1])\<rparr>)
      ''/tmp/tmp-1'' ''origin''
      [''refs/heads/master:refs/heads/master'',
       ''refs/heads/master:refs/heads/release-v2.5'',
       ''refs/tags/v2.5.0:refs/tags/v2.5.0'']
      (makeGitOpts None) = Inr [''refs/heads/master:refs/heads/release-v2.5''] \<and>
   filter isPush (trace (snd (cutReleaseBranch
      (exampleWorld\<lparr>push := (\<lambda>repo remote refspecs opts. Inr [refspecs ! 1])\<rparr>)
      cutArgs start))) =
     [Push ''/tmp/tmp-1'' ''origin''
        [''refs/heads/master:refs/heads/master'',
         ''refs/heads/master:refs/heads/release-v2.5'',
         ''refs/tags/v2.5.0:refs/tags/v2.5.0'']
        (makeGitOpts None)] \<and>
   fst (cutReleaseBranch
      (exampleWorld\<lparr>push := (\<lambda>repo remote refspecs opts. Inr [refspecs ! 1])\<rparr>)
      cutArgs start) = Inr ''Done!''"
  unfolding cutReleaseBranch_def start_def
  by (simp add: example_simps isPush_def)

text \<open>
  Claim C4, as the code has it. Each workflow makes at most one push call, and a run
  without one never ends with \<^verbatim>\<open>Done!\<close>. The one call carries all the refs of the
  plan, three on the clone's \<^verbatim>\<open>origin\<close> for cut and two on the caller's upstream
  remote for tag, with the options made from the resolved credentials, and its outcome
  is the outcome of the workflow: the error of the call when it rejects, \<^verbatim>\<open>Done!\<close>
  when it resolves, whatever refs the remote refused. Once the review has been answered
  with yes (and, in the cut workflow, the version bump has succeeded), the call is made.
\<close>

theorem push_outcome_is_call_outcome:
  "((filter isPush (trace (snd (cutReleaseBranch w a start))) = [] \<and>
     fst (cutReleaseBranch w a start) \<noteq> Inr ''Done!'') \<or>
    (\<exists>url creds d cv info.
       getRemote w ''.'' (upstream a) = Inr url \<and> fst (getCreds w url start) = Inr creds \<and>
       dirSync w = Inr d \<and> require w (manifestPath w (Some d)) = Inr (Some cv) \<and>
       generateNextVersion cv (level a) (preid a) = Inr info \<and>
       filter isPush (trace (snd (cutReleaseBranch w a start))) =
         [Push d ''origin''
            [''refs/heads/master:refs/heads/master'',
             ''refs/heads/master:refs/heads/'' @ releaseBranchName info,
             ''refs/tags/v'' @ version info @ '':refs/tags/v'' @ version info]
            (makeGitOpts creds)] \<and>
       fst (cutReleaseBranch w a start) =
         (case push w d ''origin''
                 [''refs/heads/master:refs/heads/master'',
                  ''refs/heads/master:refs/heads/'' @ releaseBranchName info,
                  ''refs/tags/v'' @ version info @ '':refs/tags/v'' @ version info]
                 (makeGitOpts creds) of
            Inl e \<Rightarrow> Inl e
          | Inr refused \<Rightarrow> Inr ''Done!''))) \<and>
   ((filter isPush (trace (snd (tagVersion w a start))) = [] \<and>
     fst (tagVersion w a start) \<noteq> Inr ''Done!'') \<or>
    (\<exists>url creds cv info.
       getRemote w ''.'' (upstream a) = Inr url \<and> fst (getCreds w url start) = Inr creds \<and>
       require w (manifestPath w None) = Inr (Some cv) \<and>
       generateNextVersion cv ''patch'' None = Inr info \<and>
       filter isPush (trace (snd (tagVersion w a start))) =
         [Push ''.'' (upstream a)
            [''refs/heads/'' @ releaseBranchName info @ '':refs/heads/'' @ releaseBranchName info,
             ''refs/tags/v'' @ version info @ '':refs/tags/v'' @ version info]
            (makeGitOpts creds)] \<and>
       fst (tagVersion w a start) =
         (case push w ''.'' (upstream a)
                 [''refs/heads/'' @ releaseBranchName info @ '':refs/heads/'' @
                    releaseBranchName info,
                  ''refs/tags/v'' @ version info @ '':refs/tags/v'' @ version info]
                 (makeGitOpts creds) of
            Inl e \<Rightarrow> Inl e
          | Inr refused \<Rightarrow> Inr ''Done!''))) \<and>
   (\<forall>d. dirSync w = Inr d \<longrightarrow>
      Prompt ''Does the commit log look good?'' False
        \<in> set (trace (snd (cutReleaseBranch w a start))) \<longrightarrow>
      confirm False (answer w) \<longrightarrow>
      execSync w (npmVersion (level a)) (Some d) = Inr () \<longrightarrow>
      filter isPush (trace (snd (cutReleaseBranch w a start))) \<noteq> []) \<and>
   (Prompt ''Does the commit log look good?'' False
        \<in> set (trace (snd (tagVersion w a start))) \<longrightarrow>
      confirm False (answer w) \<longrightarrow>
      filter isPush (trace (snd (tagVersion w a start))) \<noteq> [])"
proof -
  define Q where "Q = (\<lambda>z :: (error + string) \<times> state.
    ((filter isPush (trace (snd z)) = [] \<and> fst z \<noteq> Inr ''Done!'') \<or>
    (\<exists>url creds d cv info.
       getRemote w ''.'' (upstream a) = Inr url \<and> fst (getCreds w url start) = Inr creds \<and>
       dirSync w = Inr d \<and> require w (manifestPath w (Some d)) = Inr (Some cv) \<and>
       generateNextVersion cv (level a) (preid a) = Inr info \<and>
       filter isPush (trace (snd z)) =
         [Push d ''origin''
            [''refs/heads/master:refs/heads/master'',
             ''refs/heads/master:refs/heads/'' @ releaseBranchName info,
             ''refs/tags/v'' @ version info @ '':refs/tags/v'' @ version info]
            (makeGitOpts creds)] \<and>
       fst z =
         (case push w d ''origin''
                 [''refs/heads/master:refs/heads/master'',
                  ''refs/heads/master:refs/heads/'' @ releaseBranchName info,
                  ''refs/tags/v'' @ version info @ '':refs/tags/v'' @ version info]
                 (makeGitOpts creds) of
            Inl e \<Rightarrow> Inl e
          | Inr refused \<Rightarrow> Inr ''Done!''))) \<and>
    (\<forall>d. dirSync w = Inr d \<longrightarrow>
      Prompt ''Does the commit log look good?'' False \<in> set (trace (snd z)) \<longrightarrow>
      confirm False (answer w) \<longrightarrow>
      execSync w (npmVersion (level a)) (Some d) = Inr () \<longrightarrow>
      filter isPush (trace (snd z)) \<noteq> []))"
  define R where "R = (\<lambda>z :: (error + string) \<times> state.
    ((filter isPush (trace (snd z)) = [] \<and> fst z \<noteq> Inr ''Done!'') \<or>
    (\<exists>url creds cv info.
       getRemote w ''.'' (upstream a) = Inr url \<and> fst (getCreds w url start) = Inr creds \<and>
       require w (manifestPath w None) = Inr (Some cv) \<and>
       generateNextVersion cv ''patch'' None = Inr info \<and>
       filter isPush (trace (snd z)) =
         [Push ''.'' (upstream a)
            [''refs/heads/'' @ releaseBranchName info @ '':refs/heads/'' @ releaseBranchName info,
             ''refs/tags/v'' @ version info @ '':refs/tags/v'' @ version info]
            (makeGitOpts creds)] \<and>
       fst z =
         (case push w ''.'' (upstream a)
                 [''refs/heads/'' @ releaseBranchName info @ '':refs/heads/'' @
                    releaseBranchName info,
                  ''refs/tags/v'' @ version info @ '':refs/tags/v'' @ version info]
                 (makeGitOpts creds) of
            Inl e \<Rightarrow> Inl e
          | Inr refused \<Rightarrow> Inr ''Done!''))) \<and>
    (Prompt ''Does the commit log look good?'' False \<in> set (trace (snd z)) \<longrightarrow>
      confirm False (answer w) \<longrightarrow>
      filter isPush (trace (snd z)) \<noteq> []))"
  have c: "Q (cutReleaseBranch w a start)"
    unfolding cutReleaseBranch_def start_def
    by (intro wp [where Q = Q])
       (auto simp add: Q_def isPush_def reviewLines_def cutRefs_def comp_def getCreds_run)
  have t: "R (tagVersion w a start)"
    unfolding tagVersion_def start_def
    by (intro wp [where Q = R])
       (auto simp add: R_def isPush_def reviewLines_def tagRefs_def comp_def getCreds_run)
  show ?thesis
    using c t unfolding Q_def R_def by blast
qed

theorem push_outcome_is_call_outcome_witness:
  "dirSync (exampleWorld\<lparr>push := (\<lambda>repo remote refspecs opts. Inl (Error ''remote hung up''))\<rparr>) =
     Inr ''/tmp/tmp-1'' \<and>
   Prompt ''Does the commit log look good?'' False
     \<in> set (trace (snd (cutReleaseBranch
           (exampleWorld\<lparr>push := (\<lambda>repo remote refspecs opts. Inl (Error ''remote hung up''))\<rparr>)
           cutArgs start))) \<and>
   confirm False (answer exampleWorld) \<and>
   execSync (exampleWorld\<lparr>push := (\<lambda>repo remote refspecs opts. Inl (Error ''remote hung up''))\<rparr>)
     (npmVersion ''minor'') (Some ''/tmp/tmp-1'') = Inr () \<and>
   filter isPush (trace (snd (cutReleaseBranch
       (exampleWorld\<lparr>push := (\<lambda>repo remote refspecs opts. Inl (Error ''remote hung up''))\<rparr>)
       cutArgs start))) =
      [Push ''/tmp/tmp-1'' ''origin''
         [''refs/heads/master:refs/heads/master'',
          ''refs/heads/master:refs/heads/release-v2.5'',
          ''refs/tags/v2.5.0:refs/tags/v2.5.0'']
         (makeGitOpts None)] \<and>
   fst (cutReleaseBranch
      (exampleWorld\<lparr>push := (\<lambda>repo remote refspecs opts. Inl (Error ''remote hung up''))\<rparr>)
      cutArgs start) = Inl (Error ''remote hung up'') \<and>
   Prompt ''Does the commit log look good?'' False
     \<in> set (trace (snd (tagVersion
           (exampleWorld\<lparr>push := (\<lambda>repo remote refspecs opts. Inr [refspecs ! 1])\<rparr>)
           cutArgs start))) \<and>
   filter isPush (trace (snd (tagVersion
       (exampleWorld\<lparr>push := (\<lambda>repo remote refspecs opts. Inr [refspecs ! 1])\<rparr>)
       cutArgs start))) =
      [Push ''.'' ''origin''
         [''refs/heads/release-v2.4:refs/heads/release-v2.4'',
          ''refs/tags/v2.4.1:refs/tags/v2.4.1'']
         (makeGitOpts None)] \<and>
   push (exampleWorld\<lparr>push := (\<lambda>repo remote refspecs opts. Inr [refspecs ! 1])\<rparr>)
      ''.'' ''origin''
      [''refs/heads/release-v2.4:refs/heads/release-v2.4'',
       ''refs/tags/v2.4.1:refs/tags/v2.4.1'']
      (makeGitOpts None) = Inr [''refs/tags/v2.4.1:refs/tags/v2.4.1''] \<and>
   fst (tagVersion
      (exampleWorld\<lparr>push := (\<lambda>repo remote refspecs opts. Inr [refspecs ! 1])\<rparr>)
      cutArgs start) = Inr ''Done!''"
proof -
  let ?w = "exampleWorld\<lparr>push := (\<lambda>repo remote refspecs opts. Inl (Error ''remote hung up''))\<rparr>"
  let ?u = "exampleWorld\<lparr>push := (\<lambda>repo remote refspecs opts. Inr [refspecs ! 1])\<rparr>"
  let ?prompt = "Prompt ''Does the commit log look good?'' False"
  have d: "dirSync ?w = Inr ''/tmp/tmp-1''"
    by (simp add: exampleWorld_def)
  have y: "confirm False (answer exampleWorld)"
    by (simp add: exampleWorld_def confirm_def)
  have yw: "confirm False (answer ?w)" and yu: "confirm False (answer ?u)"
    using y by simp_all
  have x: "execSync ?w (npmVersion ''minor'') (Some ''/tmp/tmp-1'') = Inr ()"
    by (simp add: exampleWorld_def)
  have x': "execSync ?w (npmVersion (level cutArgs)) (Some ''/tmp/tmp-1'') = Inr ()"
    by (simp add: exampleWorld_def)
  have refused: "push ?u ''.'' ''origin''
      [''refs/heads/release-v2.4:refs/heads/release-v2.4'',
       ''refs/tags/v2.4.1:refs/tags/v2.4.1'']
      (makeGitOpts None) = Inr [''refs/tags/v2.4.1:refs/tags/v2.4.1'']"
    by simp
  have rc: "require ?w (manifestPath ?w (Some ''/tmp/tmp-1'')) = Inr (Some ''2.4.0'')"
    and rt: "require ?u (manifestPath ?u None) = Inr (Some ''2.4.0'')"
    by (simp_all add: exampleWorld_def)
  have pc: "?prompt \<in> set (trace (snd (cutReleaseBranch ?w cutArgs start)))"
    unfolding cutReleaseBranch_def start_def by (simp add: example_simps)
  have pt: "?prompt \<in> set (trace (snd (tagVersion ?u cutArgs start)))"
    unfolding tagVersion_def start_def by (simp add: example_simps planner_2_4_0_patch)
  note cut = push_outcome_is_call_outcome [of ?w cutArgs]
  note tag = push_outcome_is_call_outcome [of ?u cutArgs]
  from cut d pc yw x'
  have "filter isPush (trace (snd (cutReleaseBranch ?w cutArgs start))) \<noteq> []"
    by blast
  with cut obtain url creds d' cv info where
    c0: "getRemote ?w ''.'' (upstream cutArgs) = Inr url" "fst (getCreds ?w url start) = Inr creds" and
    c1: "dirSync ?w = Inr d'" and
    c2: "require ?w (manifestPath ?w (Some d')) = Inr (Some cv)" and
    c3: "generateNextVersion cv (level cutArgs) (preid cutArgs) = Inr info" and
    c4: "filter isPush (trace (snd (cutReleaseBranch ?w cutArgs start))) =
         [Push d' ''origin''
            [''refs/heads/master:refs/heads/master'',
             ''refs/heads/master:refs/heads/'' @ releaseBranchName info,
             ''refs/tags/v'' @ version info @ '':refs/tags/v'' @ version info]
            (makeGitOpts creds)]" and
    c5: "fst (cutReleaseBranch ?w cutArgs start) =
         (case push ?w d' ''origin''
                 [''refs/heads/master:refs/heads/master'',
                  ''refs/heads/master:refs/heads/'' @ releaseBranchName info,
                  ''refs/tags/v'' @ version info @ '':refs/tags/v'' @ version info]
                 (makeGitOpts creds) of
            Inl e \<Rightarrow> Inl e
          | Inr refused \<Rightarrow> Inr ''Done!'')"
    by blast
  from c1 d have d': "d' = ''/tmp/tmp-1''" by simp
  from c2 rc d' have cv: "cv = ''2.4.0''" by simp
  from c3 cv have info: "info = \<lparr>version = ''2.5.0'', minorVer = ''v2.5'',
      releaseBranchName = ''release-v2.5''\<rparr>"
    by (simp add: planner_2_4_0 cutArgs_def)
  from c0(1) have url: "url = ''git@host:repo.git''"
    by (simp add: exampleWorld_def)
  from c0(2) have creds: "creds = None"
    by (simp add: url getCreds_run startsWith_def)
  from c4 have cutPush: "filter isPush (trace (snd (cutReleaseBranch ?w cutArgs start))) =
      [Push ''/tmp/tmp-1'' ''origin''
         [''refs/heads/master:refs/heads/master'',
          ''refs/heads/master:refs/heads/release-v2.5'',
          ''refs/tags/v2.5.0:refs/tags/v2.5.0'']
         (makeGitOpts None)]"
    by (simp add: d' info creds)
  from c5 have cutOut: "fst (cutReleaseBranch ?w cutArgs start) = Inl (Error ''remote hung up'')"
    by simp
  from tag pt yu
  have "filter isPush (trace (snd (tagVersion ?u cutArgs start))) \<noteq> []"
    by blast
  with tag obtain url2 creds2 cv2 info2 where
    t0: "getRemote ?u ''.'' (upstream cutArgs) = Inr url2"
      "fst (getCreds ?u url2 start) = Inr creds2" and
    t2: "require ?u (manifestPath ?u None) = Inr (Some cv2)" and
    t3: "generateNextVersion cv2 ''patch'' None = Inr info2" and
    t4: "filter isPush (trace (snd (tagVersion ?u cutArgs start))) =
         [Push ''.'' (upstream cutArgs)
            [''refs/heads/'' @ releaseBranchName info2 @ '':refs/heads/'' @
               releaseBranchName info2,
             ''refs/tags/v'' @ version info2 @ '':refs/tags/v'' @ version info2]
            (makeGitOpts creds2)]" and
    t5: "fst (tagVersion ?u cutArgs start) =
         (case push ?u ''.'' (upstream cutArgs)
                 [''refs/heads/'' @ releaseBranchName info2 @ '':refs/heads/'' @
                    releaseBranchName info2,
                  ''refs/tags/v'' @ version info2 @ '':refs/tags/v'' @ version info2]
                 (makeGitOpts creds2) of
            Inl e \<Rightarrow> Inl e
          | Inr refused \<Rightarrow> Inr ''Done!'')"
    by blast
  from t2 rt have cv2: "cv2 = ''2.4.0''" by simp
  from t3 cv2 have info2: "info2 = \<lparr>version = ''2.4.1'', minorVer = ''v2.4'',
      releaseBranchName = ''release-v2.4''\<rparr>"
    by (simp add: planner_2_4_0_patch)
  from t0(1) have url2: "url2 = ''git@host:repo.git''"
    by (simp add: exampleWorld_def)
  from t0(2) have creds2: "creds2 = None"
    by (simp add: url2 getCreds_run startsWith_def)
  from t4 have tagPush: "filter isPush (trace (snd (tagVersion ?u cutArgs start))) =
      [Push ''.'' ''origin''
         [''refs/heads/release-v2.4:refs/heads/release-v2.4'',
          ''refs/tags/v2.4.1:refs/tags/v2.4.1'']
         (makeGitOpts None)]"
    by (simp add: info2 creds2 cutArgs_def)
  from t5 have tagOut: "fst (tagVersion ?u cutArgs start) = Inr ''Done!''"
    by simp
  show ?thesis
    using d pc y x cutPush cutOut pt tagPush refused tagOut by simp
qed

text \<open>
  On success, on rejection and on failure alike, the scratch directory is still there when
  the cut workflow returns.
\<close>

theorem cut_leaves_scratch_directory:
  "fst (cutReleaseBranch exampleWorld cutArgs start) = Inr ''Done!'' \<and>
   scratch (snd (cutReleaseBranch exampleWorld cutArgs start)) = [''/tmp/tmp-1''] \<and>
   fst (cutReleaseBranch (exampleWorld\<lparr>answer := Some False\<rparr>) cutArgs start) =
     Inr ''Aborted branch cut! Phew, that was a close one...'' \<and>
   scratch (snd (cutReleaseBranch (exampleWorld\<lparr>answer := Some False\<rparr>) cutArgs start)) =
     [''/tmp/tmp-1''] \<and>
   fst (cutReleaseBranch
      (exampleWorld\<lparr>clone := (\<lambda>url path opts. Inl (Error ''authentication required''))\<rparr>)
      cutArgs start) = Inl (Error ''authentication required'') \<and>
   scratch (snd (cutReleaseBranch
      (exampleWorld\<lparr>clone := (\<lambda>url path opts. Inl (Error ''authentication required''))\<rparr>)
      cutArgs start)) = [''/tmp/tmp-1'']"
  unfolding cutReleaseBranch_def start_def
  by (simp add: example_simps)

text \<open>
  Claim C8, as the code has it. The cut workflow creates its scratch directory with
  \<^verbatim>\<open>unsafeCleanup\<close> set and has no step that removes it: once created, the directory
  exists when the workflow returns, whatever the outcome.
\<close>

theorem cut_never_removes_scratch:
  "(\<forall>u. TmpDirSync u \<in> set (trace (snd (cutReleaseBranch w a start))) \<longrightarrow> u) \<and>
   (\<forall>d. dirSync w = Inr d \<longrightarrow>
      TmpDirSync True \<in> set (trace (snd (cutReleaseBranch w a start))) \<longrightarrow>
      scratch (snd (cutReleaseBranch w a start)) = [d])"
proof -
  define Q where "Q = (\<lambda>z :: (error + string) \<times> state.
     (\<forall>u. TmpDirSync u \<in> set (trace (snd z)) \<longrightarrow> u) \<and>
     (\<forall>d. dirSync w = Inr d \<longrightarrow> TmpDirSync True \<in> set (trace (snd z)) \<longrightarrow>
        scratch (snd z) = [d]))"
  have "Q (cutReleaseBranch w a start)"
    unfolding cutReleaseBranch_def start_def
    by (intro wp [where Q = Q]) (auto simp add: Q_def reviewLines_def)
  then show ?thesis
    unfolding Q_def by blast
qed

theorem cut_never_removes_scratch_witness:
  "dirSync (exampleWorld\<lparr>push := (\<lambda>repo remote refspecs opts. Inl (Error ''remote hung up''))\<rparr>) =
     Inr ''/tmp/tmp-1'' \<and>
   TmpDirSync True \<in> set (trace (snd (cutReleaseBranch
      (exampleWorld\<lparr>push := (\<lambda>repo remote refspecs opts. Inl (Error ''remote hung up''))\<rparr>)
      cutArgs start))) \<and>
   scratch (snd (cutReleaseBranch
      (exampleWorld\<lparr>push := (\<lambda>repo remote refspecs opts. Inl (Error ''remote hung up''))\<rparr>)
      cutArgs start)) = [''/tmp/tmp-1'']"
proof -
  let ?w = "exampleWorld\<lparr>push := (\<lambda>repo remote refspecs opts. Inl (Error ''remote hung up''))\<rparr>"
  have d: "dirSync ?w = Inr ''/tmp/tmp-1''"
    by (simp add: exampleWorld_def)
  have t: "TmpDirSync True \<in> set (trace (snd (cutReleaseBranch ?w cutArgs start)))"
    unfolding cutReleaseBranch_def start_def by (simp add: example_simps)
  have "scratch (snd (cutReleaseBranch ?w cutArgs start)) = [''/tmp/tmp-1'']"
    using cut_never_removes_scratch [of ?w cutArgs, THEN conjunct2] d t by blast
  with d t show ?thesis by simp
qed

text \<open>
  Claim C9, on a run where the caller's repository and the fresh clone differ. The claim
  has the commit range enumerated over the scratch clone. The cut workflow walks the
  caller's repository \<^verbatim>\<open>'.'\<close> instead: the one history walk of the run is over \<^verbatim>\<open>'.'\<close>,
  and the commit shown for review is the caller's unpushed one, not the one the clone
  holds and the push would publish.
\<close>

theorem cut_reviews_callers_repository:
  "revwalk exampleWorld ''.'' ''v2.4.0..master'' = Inr [localCommit] \<and>
   revwalk exampleWorld ''/tmp/tmp-1'' ''v2.4.0..master'' = Inr [upstreamCommit] \<and>
   filter (\<lambda>e. isRevwalk e \<or> isConsoleLog e)
     (trace (snd (cutReleaseBranch exampleWorld cutArgs start))) =
     [RevwalkRange ''.'' ''v2.4.0..master'',
      ConsoleLog ''--- START COMMIT LOG v2.4.0..master ---'',
      ConsoleLog ''[Mon Mar 05 2018] (Ann) work in progress, never pushed'',
      ConsoleLog ''--- END COMMIT LOG v2.4.0..master ---'']"
  unfolding cutReleaseBranch_def start_def
  by (simp add: example_simps isRevwalk_def isConsoleLog_def commitLine_def localCommit_def)



end
